theory Spec2Isabelle
  imports Complex_Main "HOL-Library.AList"
begin

section \<open>Strings of the Go standard library, as the driver uses them\<close>

text \<open>
  A Go string is a sequence of bytes, here a \<open>string\<close> (a list of 8-bit characters).
  The driver calls four string functions: \<open>strings.ReplaceAll\<close> and \<open>strings.Split\<close>
  (both with a one-byte pattern), \<open>strings.TrimSpace\<close> and \<open>filepath.Ext\<close>.
\<close>

definition newline :: char where
  "newline = CHR 0x0A"

definition space :: char where
  "space = CHR 0x20"

definition dot :: char where
  "dot = CHR 0x2E"

definition slash :: char where
  "slash = CHR 0x2F"

text \<open>\<open>strings.ReplaceAll(s, old, new)\<close> for one-byte \<open>old\<close> and \<open>new\<close>.\<close>

definition ReplaceAll :: "string \<Rightarrow> char \<Rightarrow> char \<Rightarrow> string" where
  "ReplaceAll s old new = map (\<lambda>c. if c = old then new else c) s"

text \<open>
  \<open>strings.Split(s, sep)\<close> for a one-byte \<open>sep\<close>: the pieces between the separators,
  empty pieces kept; a string without separator gives the one piece \<open>s\<close> (also when
  \<open>s\<close> is empty). \<open>cur\<close> is the piece being read.
\<close>

fun split_from :: "string \<Rightarrow> char \<Rightarrow> string \<Rightarrow> string list" where
  "split_from [] sep cur = [cur]"
| "split_from (c # s) sep cur =
     (if c = sep then cur # split_from s sep [] else split_from s sep (cur @ [c]))"

definition Split :: "string \<Rightarrow> char \<Rightarrow> string list" where
  "Split s sep = split_from s sep []"

text \<open>
  \<open>unicode.IsSpace\<close>, on the UTF-8 encoding of a rune: the six ASCII white-space bytes,
  U+0085 and U+00A0 (two bytes), and U+1680, U+2000 to U+200A, U+2028, U+2029, U+202F,
  U+205F and U+3000 (three bytes).
\<close>

definition isSpace1 :: "char \<Rightarrow> bool" where
  "isSpace1 a \<longleftrightarrow>
     a = CHR 0x09 \<or> a = CHR 0x0A \<or> a = CHR 0x0B \<or> a = CHR 0x0C \<or> a = CHR 0x0D \<or> a = CHR 0x20"

definition isSpace2 :: "char \<Rightarrow> char \<Rightarrow> bool" where
  "isSpace2 a b \<longleftrightarrow> a = CHR 0xC2 \<and> (b = CHR 0x85 \<or> b = CHR 0xA0)"

definition isSpace3 :: "char \<Rightarrow> char \<Rightarrow> char \<Rightarrow> bool" where
  "isSpace3 a b c \<longleftrightarrow>
     (a = CHR 0xE1 \<and> b = CHR 0x9A \<and> c = CHR 0x80) \<or>
     (a = CHR 0xE2 \<and> b = CHR 0x80 \<and>
        ((0x80 \<le> (of_char c :: nat) \<and> (of_char c :: nat) \<le> 0x8A) \<or>
         c = CHR 0xA8 \<or> c = CHR 0xA9 \<or> c = CHR 0xAF)) \<or>
     (a = CHR 0xE2 \<and> b = CHR 0x81 \<and> c = CHR 0x9F) \<or>
     (a = CHR 0xE3 \<and> b = CHR 0x80 \<and> c = CHR 0x80)"

text \<open>
  \<open>strings.TrimSpace\<close> removes the white-space runes at the front, then those at the
  back. An invalid or truncated encoding decodes to the replacement rune, which is not
  white space, so trimming stops there.
\<close>

fun TrimLeft :: "string \<Rightarrow> string" where
  "TrimLeft (a # b # c # s) =
     (if isSpace1 a then TrimLeft (b # c # s)
      else if isSpace2 a b then TrimLeft (c # s)
      else if isSpace3 a b c then TrimLeft s
      else a # b # c # s)"
| "TrimLeft [a, b] =
     (if isSpace1 a then TrimLeft [b] else if isSpace2 a b then [] else [a, b])"
| "TrimLeft [a] = (if isSpace1 a then [] else [a])"
| "TrimLeft [] = []"

text \<open>The same from the back, on the reversed string: the last byte comes first.\<close>

fun trim_rev :: "string \<Rightarrow> string" where
  "trim_rev (c # b # a # s) =
     (if isSpace1 c then trim_rev (b # a # s)
      else if isSpace2 b c then trim_rev (a # s)
      else if isSpace3 a b c then trim_rev s
      else c # b # a # s)"
| "trim_rev [c, b] =
     (if isSpace1 c then trim_rev [b] else if isSpace2 b c then [] else [c, b])"
| "trim_rev [c] = (if isSpace1 c then [] else [c])"
| "trim_rev [] = []"

definition TrimRight :: "string \<Rightarrow> string" where
  "TrimRight s = rev (trim_rev (rev s))"

definition TrimSpace :: "string \<Rightarrow> string" where
  "TrimSpace s = TrimRight (TrimLeft s)"

text \<open>
  \<open>filepath.Ext(path)\<close>: the suffix that starts at the last dot of the last path
  element, empty when that element has no dot. The scan runs from the last byte to the
  front and stops at a path separator.
\<close>

fun ext_scan :: "string \<Rightarrow> string \<Rightarrow> string" where
  "ext_scan [] suffix = []"
| "ext_scan (c # before) suffix =
     (if c = slash then []
      else if c = dot then c # suffix
      else ext_scan before (c # suffix))"

definition Ext :: "string \<Rightarrow> string" where
  "Ext path = ext_scan (rev path) []"

section \<open>The annotation parser \<open>parseFolder\<close>\<close>

text \<open>
  What \<open>parseFolder\<close> reads from outside: the directory listing (\<open>ioutil.ReadDir\<close>),
  the files (\<open>ioutil.ReadFile\<close>) and the float parser
  (\<open>strconv.ParseFloat(entity, 32)\<close> followed by the conversion to \<open>float32\<close>).
  An external failure carries its message. The type \<open>'f\<close> stands for \<open>float32\<close>.
\<close>

record FileInfo =
  Name :: string
  IsDir :: bool

record 'f os =
  ReadDir :: "string \<Rightarrow> string + FileInfo list"
  ReadFile :: "string \<Rightarrow> string + string"
  ParseFloat :: "string \<Rightarrow> string + 'f"

text \<open>
  The errors \<open>parseFolder\<close> returns: the three it passes on from outside, and its own
  for a folder without annotation files. \<open>IndexOutOfRange\<close> is the panic of
  \<open>strings.Split(...)[0]\<close> on an empty slice.
\<close>

datatype error =
    FromReadDir string
  | FromReadFile string
  | FromParseFloat string
  | NoTxtFiles string
  | IndexOutOfRange

text \<open>
  The Go map \<open>map[string][]float32\<close> is an association list with distinct keys:
  \<open>AList.update\<close> replaces the value of a key that is present and adds a key that is
  not, \<open>map_of\<close> reads a key, and the length is the number of keys.
\<close>

type_synonym 'f targets = "(string \<times> 'f list) list"

text \<open>The inner loop, over the pieces of one file.\<close>

fun parse_entities :: "(string \<Rightarrow> string + 'f) \<Rightarrow> string list \<Rightarrow> 'f list \<Rightarrow> error + 'f list" where
  "parse_entities pf [] sliceOfF32 = Inr sliceOfF32"
| "parse_entities pf (piece # pieces) sliceOfF32 =
     (let entity = TrimSpace piece in
      if entity = [] then parse_entities pf pieces sliceOfF32
      else (case pf entity of
              Inl e \<Rightarrow> Inl (FromParseFloat e)
            | Inr entityF32 \<Rightarrow> parse_entities pf pieces (sliceOfF32 @ [entityF32])))"

definition fileContentAsArray :: "string \<Rightarrow> string list" where
  "fileContentAsArray fileBytes = Split (ReplaceAll fileBytes newline space) space"

definition filePath :: "string \<Rightarrow> string \<Rightarrow> string" where
  "filePath dir name = dir @ [slash] @ name"

text \<open>The outer loop, over the entries of the directory.\<close>

fun scan_files :: "('f, 'z) os_scheme \<Rightarrow> string \<Rightarrow> FileInfo list \<Rightarrow> 'f targets \<Rightarrow> error + 'f targets" where
  "scan_files E dir [] targets = Inr targets"
| "scan_files E dir (fileInfo # rest) targets =
     (if IsDir fileInfo \<or> Ext (Name fileInfo) \<noteq> ''.txt'' then scan_files E dir rest targets
      else (case ReadFile E (filePath dir (Name fileInfo)) of
              Inl e \<Rightarrow> Inl (FromReadFile e)
            | Inr fileBytes \<Rightarrow>
                (case parse_entities (ParseFloat E) (fileContentAsArray fileBytes) [] of
                   Inl e \<Rightarrow> Inl e
                 | Inr sliceOfF32 \<Rightarrow>
                     (case Split (Name fileInfo) dot of
                        [] \<Rightarrow> Inl IndexOutOfRange
                      | key # _ \<Rightarrow>
                          scan_files E dir rest (AList.update key sliceOfF32 targets)))))"

definition parseFolder :: "('f, 'z) os_scheme \<Rightarrow> string \<Rightarrow> error + 'f targets" where
  "parseFolder E dir =
     (case ReadDir E dir of
        Inl e \<Rightarrow> Inl (FromReadDir e)
      | Inr filesInfo \<Rightarrow>
          (case scan_files E dir filesInfo [] of
             Inl e \<Rightarrow> Inl e
           | Inr targets \<Rightarrow> if length targets = 0 then Inl (NoTxtFiles dir) else Inr targets))"

text \<open>An entry that \<open>parseFolder\<close> reads: not a directory, extension exactly \<open>.txt\<close>.\<close>

definition is_txt :: "FileInfo \<Rightarrow> bool" where
  "is_txt fileInfo \<longleftrightarrow> \<not> IsDir fileInfo \<and> Ext (Name fileInfo) = ''.txt''"

section \<open>The driver \<open>main\<close>\<close>

text \<open>
  The package-level variables. \<open>leakyCoef\<close>, \<open>scoreThreshold\<close> and \<open>iouThreshold\<close>
  are written as the decimal numbers of the source text.
\<close>

definition imgWidth :: nat where
  "imgWidth = 416"

definition imgHeight :: nat where
  "imgHeight = 416"

definition channels :: nat where
  "channels = 3"

definition boxes :: nat where
  "boxes = 3"

definition leakyCoef :: rat where
  "leakyCoef = 1 / 10"

definition cocoClasses :: "string list" where
  "cocoClasses =
     [''person'', ''bicycle'', ''car'', ''motorbike'', ''aeroplane'', ''bus'', ''train'',
      ''truck'', ''boat'', ''traffic light'', ''fire hydrant'', ''stop sign'',
      ''parking meter'', ''bench'', ''bird'', ''cat'', ''dog'', ''horse'', ''sheep'', ''cow'',
      ''elephant'', ''bear'', ''zebra'', ''giraffe'', ''backpack'', ''umbrella'', ''handbag'',
      ''tie'', ''suitcase'', ''frisbee'', ''skis'', ''snowboard'', ''sports ball'', ''kite'',
      ''baseball bat'', ''baseball glove'', ''skateboard'', ''surfboard'', ''tennis racket'',
      ''bottle'', ''wine glass'', ''cup'', ''fork'', ''knife'', ''spoon'', ''bowl'', ''banana'',
      ''apple'', ''sandwich'', ''orange'', ''broccoli'', ''carrot'', ''hot dog'', ''pizza'',
      ''donut'', ''cake'', ''chair'', ''sofa'', ''pottedplant'', ''bed'', ''diningtable'',
      ''toilet'', ''tvmonitor'', ''laptop'', ''mouse'', ''remote'', ''keyboard'',
      ''cell phone'', ''microwave'', ''oven'', ''toaster'', ''sink'', ''refrigerator'',
      ''book'', ''clock'', ''vase'', ''scissors'', ''teddy bear'', ''hair drier'',
      ''toothbrush'']"

definition scoreThreshold :: rat where
  "scoreThreshold = 8 / 10"

definition iouThreshold :: rat where
  "iouThreshold = 3 / 10"

text \<open>The command-line flags, after \<open>flag.Parse\<close>.\<close>

record flags =
  modeStr :: string
  weights :: string
  cfg :: string
  imagePath :: string
  trainingFolder :: string

text \<open>
  What a run does is its log: the calls into the two libraries and the lines printed, in
  order. A call is logged with its arguments (the graph, the input node, the model and
  the tape machine are the same objects throughout and are left out). Constructors of
  plain values (\<open>tensor.New\<close>, \<open>NewRMSPropSolver\<close>, \<open>GetOutput\<close>,
  \<open>NodesToValueGrads\<close>, \<open>costs.Value\<close>, \<open>time.Now\<close>) are not logged. The type
  \<open>'img\<close> stands for the pixels \<open>GetFloat32Image\<close> returns and \<open>'det\<close> for one
  detection.
\<close>

datatype ('f, 'img) call =
    CallNewGraph
  | CallNewTensor nat nat nat
  | CallNewYoloV3 nat nat rat string string
  | CallPrint
  | CallGetFloat32Image string nat nat
  | CallLet 'img
  | CallNewTapeMachine
  | CallRunAll
  | CallReset
  | CallClose
  | CallProcessOutput "string list" rat rat
  | CallActivateTrainingMode
  | CallConcat
  | CallSum
  | CallGrad
  | CallCompile
  | CallSetTarget "'f list"
  | CallStep rat

text \<open>
  The lines printed. An elapsed time or a cost value is not part of the line's model:
  only which line it is.
\<close>

datatype 'det line =
    CantPrepareNetwork string
  | CantReadImage string
  | CantLetInput string
  | CantRunTapeMachine string
  | FeedforwardedIn
  | CantPostprocess string
  | PostprocessedIn
  | DetectionsHeader
  | DetectionLine 'det
  | CantPrepareLabeledData error
  | CantActivateTrainingMode string
  | CantConcatenate string
  | CantEvaluateCosts string
  | CantEvaluateGradients string
  | CantCompileGraph string
  | CantSetTarget string
  | TrainingIterationDone nat
  | CurrentCosts
  | CantSolverStep string
  | ModeNotImplemented string

datatype ('f, 'img, 'det) event =
    Call "('f, 'img) call"
  | Print "'det line"

text \<open>
  The libraries are outside the program. Each call that can fail answers with an error
  message or with success; the answer may depend on everything the run has done so far,
  so each function takes the log up to the call. \<open>None\<close> is Go's \<open>nil\<close> error.
  \<open>rangeOrder\<close> is the order in which \<open>range\<close> visits the keys of a map, which Go
  leaves open.
\<close>

record ('f, 'img, 'det) lib = "'f os" +
  ToLower :: "string \<Rightarrow> string"
  rangeOrder :: "'f targets \<Rightarrow> string list"
  NewYoloV3 :: "('f, 'img, 'det) event list \<Rightarrow> nat \<Rightarrow> nat \<Rightarrow> rat \<Rightarrow> string \<Rightarrow> string \<Rightarrow> string option"
  GetFloat32Image :: "('f, 'img, 'det) event list \<Rightarrow> string \<Rightarrow> nat \<Rightarrow> nat \<Rightarrow> string + 'img"
  Let_input :: "('f, 'img, 'det) event list \<Rightarrow> 'img \<Rightarrow> string option"
  RunAll :: "('f, 'img, 'det) event list \<Rightarrow> string option"
  ProcessOutput :: "('f, 'img, 'det) event list \<Rightarrow> string list \<Rightarrow> rat \<Rightarrow> rat \<Rightarrow> string + 'det list"
  ActivateTrainingMode :: "('f, 'img, 'det) event list \<Rightarrow> string option"
  Concat :: "('f, 'img, 'det) event list \<Rightarrow> string option"
  Sum_costs :: "('f, 'img, 'det) event list \<Rightarrow> string option"
  Grad :: "('f, 'img, 'det) event list \<Rightarrow> string option"
  Compile :: "('f, 'img, 'det) event list \<Rightarrow> string option"
  SetTarget :: "('f, 'img, 'det) event list \<Rightarrow> 'f list \<Rightarrow> string option"
  Step :: "('f, 'img, 'det) event list \<Rightarrow> rat \<Rightarrow> string option"

text \<open>The detector path: the \<open>case "detector"\<close> of the switch, from the log \<open>h\<close> so far.\<close>

definition detector ::
  "('f, 'img, 'det) lib \<Rightarrow> flags \<Rightarrow> ('f, 'img, 'det) event list \<Rightarrow> ('f, 'img, 'det) event list" where
  "detector L F h =
     (case GetFloat32Image L h (imagePath F) imgHeight imgWidth of
        Inl e \<Rightarrow> h @ [Call (CallGetFloat32Image (imagePath F) imgHeight imgWidth), Print (CantReadImage e)]
      | Inr imgf32 \<Rightarrow>
          (let h1 = h @ [Call (CallGetFloat32Image (imagePath F) imgHeight imgWidth)] in
           case Let_input L h1 imgf32 of
             Some e \<Rightarrow> h1 @ [Call (CallLet imgf32), Print (CantLetInput e)]
           | None \<Rightarrow>
               (let h2 = h1 @ [Call (CallLet imgf32), Call CallNewTapeMachine] in
                case RunAll L h2 of
                  Some e \<Rightarrow> h2 @ [Call CallRunAll, Print (CantRunTapeMachine e), Call CallClose]
                | None \<Rightarrow>
                    (let h3 = h2 @ [Call CallRunAll, Print FeedforwardedIn, Call CallReset] in
                     case ProcessOutput L h3 cocoClasses scoreThreshold iouThreshold of
                       Inl e \<Rightarrow>
                         h3 @ [Call (CallProcessOutput cocoClasses scoreThreshold iouThreshold),
                               Print (CantPostprocess e), Call CallClose]
                     | Inr dets \<Rightarrow>
                         h3 @ [Call (CallProcessOutput cocoClasses scoreThreshold iouThreshold),
                               Print PostprocessedIn, Print DetectionsHeader]
                            @ map (\<lambda>d. Print (DetectionLine d)) dets
                            @ [Call CallClose]))))"

text \<open>
  The optimizer: \<open>gorgonia.NewRMSPropSolver(gorgonia.WithLearnRate(r))\<close> is the value
  \<open>RMSPropSolver r\<close>.
\<close>

datatype solver = RMSPropSolver (learnRate: rat)

text \<open>How the body of the training loop ends: at its last statement, or at a \<open>return\<close>.\<close>

datatype flow = Next | Returned

text \<open>Reading a Go map at a key that is absent gives the zero value, the nil slice.\<close>

definition index_map :: "'f targets \<Rightarrow> string \<Rightarrow> 'f list" where
  "index_map labeledData i = (case map_of labeledData i of None \<Rightarrow> [] | Some v \<Rightarrow> v)"

definition imageOf :: "string \<Rightarrow> string \<Rightarrow> string" where
  "imageOf dir i = dir @ [slash] @ i @ ''.jpg''"

text \<open>
  One pass through the body of the training loop, for the key \<open>i\<close>, in iteration number
  \<open>iter\<close> (Go's \<open>int\<close>; it counts the keys of a map in memory, far from \<open>2^63\<close>), with
  the solver of the moment. It gives how the body ended, the solver after it and the log.
\<close>

definition iteration ::
  "('f, 'img, 'det) lib \<Rightarrow> string \<Rightarrow> 'f targets \<Rightarrow> string \<Rightarrow> nat \<Rightarrow> solver \<Rightarrow>
   ('f, 'img, 'det) event list \<Rightarrow> flow \<times> solver \<times> ('f, 'img, 'det) event list" where
  "iteration L dir labeledData i iter solver h =
     (case GetFloat32Image L h (imageOf dir i) imgHeight imgWidth of
        Inl e \<Rightarrow>
          (Returned, solver,
           h @ [Call (CallGetFloat32Image (imageOf dir i) imgHeight imgWidth), Print (CantReadImage e)])
      | Inr imgf32 \<Rightarrow>
          (let h1 = h @ [Call (CallGetFloat32Image (imageOf dir i) imgHeight imgWidth)] in
           case SetTarget L h1 (index_map labeledData i) of
             Some e \<Rightarrow>
               (Returned, solver,
                h1 @ [Call (CallSetTarget (index_map labeledData i)), Print (CantSetTarget e)])
           | None \<Rightarrow>
               (let h2 = h1 @ [Call (CallSetTarget (index_map labeledData i))] in
                case Let_input L h2 imgf32 of
                  Some e \<Rightarrow> (Returned, solver, h2 @ [Call (CallLet imgf32), Print (CantLetInput e)])
                | None \<Rightarrow>
                    (let h3 = h2 @ [Call (CallLet imgf32)] in
                     case RunAll L h3 of
                       Some e \<Rightarrow>
                         (Returned, solver, h3 @ [Call CallRunAll, Print (CantRunTapeMachine e)])
                     | None \<Rightarrow>
                         (let solver1 = (if iter = 15 then RMSPropSolver (1 / 1000000) else solver);
                              solver2 = (if iter = 150 then RMSPropSolver (1 / 10000000) else solver1);
                              h4 = h3 @ [Call CallRunAll, Print (TrainingIterationDone iter),
                                         Print CurrentCosts];
                              h5 = h4 @ [Call (CallStep (learnRate solver2))]
                                      @ (case Step L h4 (learnRate solver2) of
                                           Some e \<Rightarrow> [Print (CantSolverStep e)]
                                         | None \<Rightarrow> [])
                          in (Next, solver2, h5 @ [Call CallReset]))))))"

text \<open>The loop \<open>for i := range labeledData\<close>, over the keys in the order of the range.\<close>

fun training_loop ::
  "('f, 'img, 'det) lib \<Rightarrow> string \<Rightarrow> 'f targets \<Rightarrow> string list \<Rightarrow> nat \<Rightarrow> solver \<Rightarrow>
   ('f, 'img, 'det) event list \<Rightarrow> flow \<times> ('f, 'img, 'det) event list" where
  "training_loop L dir labeledData [] iter solver h = (Next, h)"
| "training_loop L dir labeledData (i # keys) iter solver h =
     (case iteration L dir labeledData i iter solver h of
        (Returned, solver', h') \<Rightarrow> (Returned, h')
      | (Next, solver', h') \<Rightarrow> training_loop L dir labeledData keys (iter + 1) solver' h')"

text \<open>
  The training path: the \<open>case "training"\<close> of the switch. The tape machine exists once
  the graph is compiled, and \<open>defer tm.Close()\<close> closes it at whatever return follows.
\<close>

definition training ::
  "('f, 'img, 'det) lib \<Rightarrow> flags \<Rightarrow> ('f, 'img, 'det) event list \<Rightarrow> ('f, 'img, 'det) event list" where
  "training L F h =
     (case parseFolder L (trainingFolder F) of
        Inl e \<Rightarrow> h @ [Print (CantPrepareLabeledData e)]
      | Inr labeledData \<Rightarrow>
          (case ActivateTrainingMode L h of
             Some e \<Rightarrow> h @ [Call CallActivateTrainingMode, Print (CantActivateTrainingMode e)]
           | None \<Rightarrow>
               (let h1 = h @ [Call CallActivateTrainingMode] in
                case Concat L h1 of
                  Some e \<Rightarrow> h1 @ [Call CallConcat, Print (CantConcatenate e)]
                | None \<Rightarrow>
                    (let h2 = h1 @ [Call CallConcat] in
                     case Sum_costs L h2 of
                       Some e \<Rightarrow> h2 @ [Call CallSum, Print (CantEvaluateCosts e)]
                     | None \<Rightarrow>
                         (let h3 = h2 @ [Call CallSum] in
                          case Grad L h3 of
                            Some e \<Rightarrow> h3 @ [Call CallGrad, Print (CantEvaluateGradients e)]
                          | None \<Rightarrow>
                              (let h4 = h3 @ [Call CallGrad] in
                               case Compile L h4 of
                                 Some e \<Rightarrow> h4 @ [Call CallCompile, Print (CantCompileGraph e)]
                               | None \<Rightarrow>
                                   (let h5 = h4 @ [Call CallCompile, Call CallNewTapeMachine] in
                                    snd (training_loop L (trainingFolder F) labeledData
                                           (rangeOrder L labeledData) 0
                                           (RMSPropSolver (1 / 100000)) h5)
                                      @ [Call CallClose])))))))"

text \<open>
  \<open>main\<close>: the graph and the input node, the network, then the switch on the lower-cased
  mode string. Every path ends in a plain return, so the result of a run is its log.
\<close>

definition main :: "('f, 'img, 'det) lib \<Rightarrow> flags \<Rightarrow> ('f, 'img, 'det) event list" where
  "main L F =
     (let h = [Call CallNewGraph, Call (CallNewTensor channels imgWidth imgHeight)] in
      case NewYoloV3 L h (length cocoClasses) boxes leakyCoef (cfg F) (weights F) of
        Some e \<Rightarrow>
          h @ [Call (CallNewYoloV3 (length cocoClasses) boxes leakyCoef (cfg F) (weights F)),
               Print (CantPrepareNetwork e)]
      | None \<Rightarrow>
          (let h1 = h @ [Call (CallNewYoloV3 (length cocoClasses) boxes leakyCoef (cfg F) (weights F)),
                         Call CallPrint] in
           if ToLower L (modeStr F) = ''detector'' then detector L F h1
           else if ToLower L (modeStr F) = ''training'' then training L F h1
           else h1 @ [Print (ModeNotImplemented (modeStr F))]))"

section \<open>The notions of the statements\<close>

text \<open>
  The learning-rate schedule as the specification states it: \<open>1e-5\<close> at first,
  \<open>1e-6\<close> once 15 iterations are completed, \<open>1e-7\<close> once 150 are. The argument is the
  number of completed iterations.
\<close>

definition schedule :: "nat \<Rightarrow> rat" where
  "schedule n = (if n < 15 then 1 / 100000 else if n < 150 then 1 / 1000000 else 1 / 10000000)"

text \<open>A string that is empty or consists only of white-space runes.\<close>

fun white :: "string \<Rightarrow> bool" where
  "white (a # b # c # s) =
     (if isSpace1 a then white (b # c # s)
      else if isSpace2 a b then white (c # s)
      else isSpace3 a b c \<and> white s)"
| "white [a, b] = (if isSpace1 a then white [b] else isSpace2 a b)"
| "white [a] = isSpace1 a"
| "white [] = True"

text \<open>
  The entities of a file: the pieces of its content between spaces and newlines, trimmed,
  the empty ones left out. These are the strings the inner loop hands to the float
  parser.
\<close>

definition entities :: "string \<Rightarrow> string list" where
  "entities fileBytes = filter (\<lambda>entity. entity \<noteq> []) (map TrimSpace (fileContentAsArray fileBytes))"

text \<open>The key of a file name: the name up to its first dot.\<close>

definition stem :: "string \<Rightarrow> string" where
  "stem name = takeWhile (\<lambda>c. c \<noteq> dot) name"

text \<open>
  A file that parses: it can be read, and the float parser accepts each of its
  entities. \<open>floats_of\<close> is then the sequence of its floats, in file order.
\<close>

definition accepted :: "(string \<Rightarrow> string + 'f) \<Rightarrow> string \<Rightarrow> bool" where
  "accepted pf entity \<longleftrightarrow> (case pf entity of Inl e \<Rightarrow> False | Inr v \<Rightarrow> True)"

definition parsed :: "(string \<Rightarrow> string + 'f) \<Rightarrow> string \<Rightarrow> 'f list" where
  "parsed pf entity = (case pf entity of Inl e \<Rightarrow> [] | Inr v \<Rightarrow> [v])"

definition readable :: "('f, 'z) os_scheme \<Rightarrow> string \<Rightarrow> FileInfo \<Rightarrow> bool" where
  "readable E dir fileInfo \<longleftrightarrow>
     (case ReadFile E (filePath dir (Name fileInfo)) of Inl e \<Rightarrow> False | Inr fileBytes \<Rightarrow> True)"

definition content :: "('f, 'z) os_scheme \<Rightarrow> string \<Rightarrow> FileInfo \<Rightarrow> string" where
  "content E dir fileInfo =
     (case ReadFile E (filePath dir (Name fileInfo)) of Inl e \<Rightarrow> [] | Inr fileBytes \<Rightarrow> fileBytes)"

definition valid_file :: "('f, 'z) os_scheme \<Rightarrow> string \<Rightarrow> FileInfo \<Rightarrow> bool" where
  "valid_file E dir fileInfo \<longleftrightarrow>
     readable E dir fileInfo \<and> list_all (accepted (ParseFloat E)) (entities (content E dir fileInfo))"

definition floats_of :: "('f, 'z) os_scheme \<Rightarrow> string \<Rightarrow> FileInfo \<Rightarrow> 'f list" where
  "floats_of E dir fileInfo = concat (map (parsed (ParseFloat E)) (entities (content E dir fileInfo)))"

text \<open>The learning rates of the optimizer steps of a log, in order, and other readings of a log.\<close>

fun step_rates :: "('f, 'img, 'det) event list \<Rightarrow> rat list" where
  "step_rates [] = []"
| "step_rates (Call (CallStep r) # h) = r # step_rates h"
| "step_rates (x # h) = step_rates h"

fun detections :: "('f, 'img, 'det) event list \<Rightarrow> 'det list" where
  "detections [] = []"
| "detections (Print (DetectionLine d) # h) = d # detections h"
| "detections (x # h) = detections h"

fun calls :: "('f, 'img, 'det) event list \<Rightarrow> ('f, 'img) call list" where
  "calls [] = []"
| "calls (Call c # h) = c # calls h"
| "calls (x # h) = calls h"

fun lines :: "('f, 'img, 'det) event list \<Rightarrow> 'det line list" where
  "lines [] = []"
| "lines (Print l # h) = l # lines h"
| "lines (x # h) = lines h"

text \<open>
  The tokens of a text as the specification describes them: the text split on white
  space (space, newline, tab and the other ASCII white-space bytes), the empty tokens
  discarded.
\<close>

fun tokens_from :: "string \<Rightarrow> string \<Rightarrow> string list" where
  "tokens_from [] cur = (if cur = [] then [] else [cur])"
| "tokens_from (c # s) cur =
     (if isSpace1 c then (if cur = [] then [] else [cur]) @ tokens_from s []
      else tokens_from s (cur @ [c]))"

definition tokens :: "string \<Rightarrow> string list" where
  "tokens s = tokens_from s []"

text \<open>The entries of a listing that are stored under the key \<open>k\<close>, in listing order.\<close>

definition files_of_key :: "FileInfo list \<Rightarrow> string \<Rightarrow> FileInfo list" where
  "files_of_key infos k = filter (\<lambda>fi. is_txt fi \<and> stem (Name fi) = k) infos"

text \<open>What one entry of the listing does to the map when every file parses.\<close>

definition store :: "('f, 'z) os_scheme \<Rightarrow> string \<Rightarrow> FileInfo \<Rightarrow> 'f targets \<Rightarrow> 'f targets" where
  "store E dir fi targets =
     (if is_txt fi then AList.update (stem (Name fi)) (floats_of E dir fi) targets else targets)"

text \<open>The start of every run: the graph, the input node and the construction of the network.\<close>

definition prologue :: "flags \<Rightarrow> ('f, 'img, 'det) event list" where
  "prologue F =
     [Call CallNewGraph, Call (CallNewTensor channels imgWidth imgHeight),
      Call (CallNewYoloV3 (length cocoClasses) boxes leakyCoef (cfg F) (weights F))]"

text \<open>The answer of \<open>NewYoloV3\<close> in a run with the flags \<open>F\<close>.\<close>

definition construction :: "('f, 'img, 'det) lib \<Rightarrow> flags \<Rightarrow> string option" where
  "construction L F =
     NewYoloV3 L [Call CallNewGraph, Call (CallNewTensor channels imgWidth imgHeight)]
       (length cocoClasses) boxes leakyCoef (cfg F) (weights F)"

text \<open>
  The library answers with success: to the calls that prepare the training
  (\<open>setup_succeeds\<close>), and to the four calls of the loop body after which a failure
  makes \<open>main\<close> return (\<open>body_succeeds\<close>), whatever the log and the arguments.
\<close>

definition setup_succeeds :: "('f, 'img, 'det) lib \<Rightarrow> bool" where
  "setup_succeeds L \<longleftrightarrow>
     (\<forall>h. ActivateTrainingMode L h = None \<and> Concat L h = None \<and> Sum_costs L h = None \<and>
          Grad L h = None \<and> Compile L h = None)"

definition body_succeeds :: "('f, 'img, 'det) lib \<Rightarrow> bool" where
  "body_succeeds L \<longleftrightarrow>
     (\<forall>h path. \<exists>imgf32. GetFloat32Image L h path imgHeight imgWidth = Inr imgf32) \<and>
     (\<forall>h target. SetTarget L h target = None) \<and>
     (\<forall>h imgf32. Let_input L h imgf32 = None) \<and>
     (\<forall>h. RunAll L h = None)"

text \<open>The name of the function a call goes to, and the images a log asks for.\<close>

fun op_name :: "('f, 'img) call \<Rightarrow> string" where
  "op_name CallNewGraph = ''NewGraph''"
| "op_name (CallNewTensor c w h) = ''NewTensor''"
| "op_name (CallNewYoloV3 n b l c w) = ''NewYoloV3''"
| "op_name CallPrint = ''Print''"
| "op_name (CallGetFloat32Image p h w) = ''GetFloat32Image''"
| "op_name (CallLet img) = ''Let''"
| "op_name CallNewTapeMachine = ''NewTapeMachine''"
| "op_name CallRunAll = ''RunAll''"
| "op_name CallReset = ''Reset''"
| "op_name CallClose = ''Close''"
| "op_name (CallProcessOutput cs st it) = ''ProcessOutput''"
| "op_name CallActivateTrainingMode = ''ActivateTrainingMode''"
| "op_name CallConcat = ''Concat''"
| "op_name CallSum = ''Sum''"
| "op_name CallGrad = ''Grad''"
| "op_name CallCompile = ''Compile''"
| "op_name (CallSetTarget t) = ''SetTarget''"
| "op_name (CallStep r) = ''Step''"

fun images :: "('f, 'img, 'det) event list \<Rightarrow> string list" where
  "images [] = []"
| "images (Call (CallGetFloat32Image p h w) # es) = p # images es"
| "images (x # es) = images es"

text \<open>The calls of one pass through the loop body that reaches its end.\<close>

definition body_ops :: "string list" where
  "body_ops = [''GetFloat32Image'', ''SetTarget'', ''Let'', ''RunAll'', ''Step'', ''Reset'']"

text \<open>The log of the training path up to the loop, when the preparation succeeds.\<close>

definition before_loop :: "flags \<Rightarrow> ('f, 'img, 'det) event list" where
  "before_loop F =
     prologue F @ [Call CallPrint, Call CallActivateTrainingMode, Call CallConcat, Call CallSum,
                   Call CallGrad, Call CallCompile, Call CallNewTapeMachine]"

text \<open>The rate of the solver when the loop body is entered for iteration \<open>iter\<close>.\<close>

definition entry_rate :: "nat \<Rightarrow> rat" where
  "entry_rate iter =
     (if iter \<le> 15 then 1 / 100000 else if iter \<le> 150 then 1 / 1000000 else 1 / 10000000)"

text \<open>
  The log of one pass through the loop body after each call that succeeded, from the log
  \<open>h\<close> at its start, and the solver the step of iteration \<open>iter\<close> uses.
\<close>

definition after_image :: "string \<Rightarrow> string \<Rightarrow> ('f, 'img, 'det) event list \<Rightarrow> ('f, 'img, 'det) event list" where
  "after_image dir i h = h @ [Call (CallGetFloat32Image (imageOf dir i) imgHeight imgWidth)]"

definition after_target ::
  "string \<Rightarrow> 'f targets \<Rightarrow> string \<Rightarrow> ('f, 'img, 'det) event list \<Rightarrow> ('f, 'img, 'det) event list" where
  "after_target dir labeledData i h =
     after_image dir i h @ [Call (CallSetTarget (index_map labeledData i))]"

definition after_let ::
  "string \<Rightarrow> 'f targets \<Rightarrow> string \<Rightarrow> 'img \<Rightarrow> ('f, 'img, 'det) event list \<Rightarrow> ('f, 'img, 'det) event list" where
  "after_let dir labeledData i imgf32 h = after_target dir labeledData i h @ [Call (CallLet imgf32)]"

definition after_run ::
  "string \<Rightarrow> 'f targets \<Rightarrow> string \<Rightarrow> 'img \<Rightarrow> nat \<Rightarrow> ('f, 'img, 'det) event list \<Rightarrow>
   ('f, 'img, 'det) event list" where
  "after_run dir labeledData i imgf32 iter h =
     after_let dir labeledData i imgf32 h
       @ [Call CallRunAll, Print (TrainingIterationDone iter), Print CurrentCosts]"

definition stepping :: "nat \<Rightarrow> solver \<Rightarrow> solver" where
  "stepping iter solver =
     (if iter = 150 then RMSPropSolver (1 / 10000000)
      else if iter = 15 then RMSPropSolver (1 / 1000000)
      else solver)"

text \<open>
  Modelled from the spec: the post-processing \<open>ProcessOutput\<close> of the model library and
  its detections, which are not among the sources; only the call in \<open>main\<close> is. The
  specification gives a detection a class label, a confidence score and a bounding box of
  four coordinates, and calls the IoU of two boxes their overlap ratio, intersection over
  union. Numbers are rationals here, not 32-bit floats.
\<close>

record rectangle =
  xmin :: rat
  ymin :: rat
  xmax :: rat
  ymax :: rat

record detection =
  className :: string
  score :: rat
  rect :: rectangle

definition area :: "rectangle \<Rightarrow> rat" where
  "area r = max 0 (xmax r - xmin r) * max 0 (ymax r - ymin r)"

definition intersection :: "rectangle \<Rightarrow> rectangle \<Rightarrow> rectangle" where
  "intersection a b =
     \<lparr>xmin = max (xmin a) (xmin b), ymin = max (ymin a) (ymin b),
      xmax = min (xmax a) (xmax b), ymax = min (ymax a) (ymax b)\<rparr>"

definition iou :: "rectangle \<Rightarrow> rectangle \<Rightarrow> rat" where
  "iou a b =
     (let inter = area (intersection a b); union = area a + area b - inter in
      if union = 0 then 0 else inter / union)"

text \<open>
  Modelled from the spec: the suppression, "discard overlapping boxes above IoU 0.3 in
  favor of the higher-scoring one, per class". The candidates come in order of falling
  score; one is kept unless a box of its class that is already kept overlaps it by more
  than the threshold.
\<close>

fun suppress :: "rat \<Rightarrow> detection list \<Rightarrow> detection list \<Rightarrow> detection list" where
  "suppress it kept [] = kept"
| "suppress it kept (d # ds) =
     (if list_ex (\<lambda>k. className k = className d \<and> it < iou (rect k) (rect d)) kept
      then suppress it kept ds
      else suppress it (kept @ [d]) ds)"

text \<open>
  Modelled from the spec: \<open>ProcessOutput\<close>, on the candidate boxes read from the
  network's output: "apply the score threshold (discard boxes with confidence below it),
  then apply IoU-based suppression".
\<close>

definition ProcessOutput_spec :: "detection list \<Rightarrow> rat \<Rightarrow> rat \<Rightarrow> detection list" where
  "ProcessOutput_spec candidates st it =
     suppress it [] (sort_key (\<lambda>d. - score d) (filter (\<lambda>d. \<not> score d < st) candidates))"

text \<open>The library's \<open>ProcessOutput\<close> does, at the thresholds of \<open>main\<close>, what the specification says.\<close>

definition postprocess_as_specified :: "('f, 'img, detection) lib \<Rightarrow> bool" where
  "postprocess_as_specified L \<longleftrightarrow>
     (\<forall>h dets. ProcessOutput L h cocoClasses scoreThreshold iouThreshold = Inr dets \<longrightarrow>
        (\<exists>candidates. dets = ProcessOutput_spec candidates scoreThreshold iouThreshold))"

text \<open>No two boxes of one class in the list overlap by more than the threshold.\<close>

fun separated :: "rat \<Rightarrow> detection list \<Rightarrow> bool" where
  "separated it [] = True"
| "separated it (d # ds) =
     (list_all (\<lambda>d'. className d = className d' \<longrightarrow> \<not> it < iou (rect d) (rect d')) ds \<and>
      separated it ds)"

section \<open>Folders and library stand-ins for the examples\<close>

text \<open>
  A float parser for the examples. It reads the plain decimal numbers \<open>digits\<close> and
  \<open>digits.digits\<close> as rationals and rejects every other string. Go's
  \<open>strconv.ParseFloat\<close> accepts these numbers too, and it too rejects the two other
  strings the examples hand to the parser: \<open>abc\<close>, and \<open>1\<close>, a tab, \<open>2\<close>.
\<close>

definition is_digit :: "char \<Rightarrow> bool" where
  "is_digit c \<longleftrightarrow> 48 \<le> (of_char c :: nat) \<and> (of_char c :: nat) \<le> 57"

definition digits_value :: "string \<Rightarrow> nat" where
  "digits_value ds = foldl (\<lambda>n c. 10 * n + (of_char c - 48)) 0 ds"

definition decimal :: "string \<Rightarrow> string + rat" where
  "decimal s =
     (let ip = takeWhile is_digit s; rest = dropWhile is_digit s in
      if ip = [] then Inl ''invalid syntax''
      else (case rest of
              [] \<Rightarrow> Inr (of_nat (digits_value ip))
            | c # fp \<Rightarrow>
                if c = dot \<and> fp \<noteq> [] \<and> list_all is_digit fp
                then Inr (of_nat (digits_value ip) + of_nat (digits_value fp) / 10 ^ length fp)
                else Inl ''invalid syntax''))"

text \<open>A file system with the given directory listings and file contents.\<close>

definition folder :: "(string \<times> FileInfo list) list \<Rightarrow> (string \<times> string) list \<Rightarrow> rat os" where
  "folder dirs files =
     \<lparr>ReadDir = (\<lambda>dir. case map_of dirs dir of None \<Rightarrow> Inl ''no such directory'' | Some l \<Rightarrow> Inr l),
      ReadFile = (\<lambda>path. case map_of files path of None \<Rightarrow> Inl ''no such file'' | Some b \<Rightarrow> Inr b),
      ParseFloat = decimal\<rparr>"

definition sample_folder :: "rat os" where
  "sample_folder =
     folder [(''d'', [\<lparr>Name = ''sample1.jpg'', IsDir = False\<rparr>, \<lparr>Name = ''sample1.txt'', IsDir = False\<rparr>])]
            [(''d/sample1.txt'', ''0.1 0.2 0.3 0.4'')]"

definition tab_folder :: "rat os" where
  "tab_folder =
     folder [(''d'', [\<lparr>Name = ''a.txt'', IsDir = False\<rparr>])]
            [(''d/a.txt'', [CHR ''1'', CHR 0x09, CHR ''2''])]"

definition collision_folder :: "rat os" where
  "collision_folder =
     folder [(''d'', [\<lparr>Name = ''a.b.txt'', IsDir = False\<rparr>, \<lparr>Name = ''a.txt'', IsDir = False\<rparr>])]
            [(''d/a.b.txt'', ''2''), (''d/a.txt'', ''1'')]"

definition pair_folder :: "rat os" where
  "pair_folder =
     folder [(''d'', [\<lparr>Name = ''a.txt'', IsDir = False\<rparr>, \<lparr>Name = ''b.txt'', IsDir = False\<rparr>])]
            [(''d/a.txt'', ''1''), (''d/b.txt'', ''2'')]"

definition malformed_folder :: "rat os" where
  "malformed_folder =
     folder [(''d'', [\<lparr>Name = ''bad.txt'', IsDir = False\<rparr>])]
            [(''d/bad.txt'', ''1.0 abc 2.0'')]"

definition no_txt_folder :: "rat os" where
  "no_txt_folder =
     folder [(''d'', [\<lparr>Name = ''notes.md'', IsDir = False\<rparr>, \<lparr>Name = ''old.txt'', IsDir = True\<rparr>])]
            [(''d/notes.md'', ''1.0'')]"

definition blank_folder :: "rat os" where
  "blank_folder =
     folder [(''d'', [\<lparr>Name = ''blank.txt'', IsDir = False\<rparr>])]
            [(''d/blank.txt'', [CHR 0x20, CHR 0x0A, CHR 0x09, CHR 0xC2, CHR 0xA0])]"

lemmas eval_strings =
  filePath_def Ext_def slash_def dot_def fileContentAsArray_def Split_def ReplaceAll_def
  newline_def space_def TrimSpace_def TrimRight_def isSpace1_def isSpace2_def isSpace3_def
  stem_def tokens_def

lemmas eval_folder =
  folder_def decimal_def is_digit_def digits_value_def is_txt_def valid_file_def readable_def
  content_def entities_def accepted_def parsed_def floats_of_def files_of_key_def

text \<open>A lower-casing for the examples: the ASCII letters, as \<open>strings.ToLower\<close> maps them.\<close>

definition lower_ascii :: "string \<Rightarrow> string" where
  "lower_ascii s =
     map (\<lambda>c. case map_of (zip ''ABCDEFGHIJKLMNOPQRSTUVWXYZ'' ''abcdefghijklmnopqrstuvwxyz'') c of
                Some l \<Rightarrow> l
              | None \<Rightarrow> c) s"

text \<open>
  Libraries for the examples, over a folder \<open>E\<close>: a call fails with the message
  \<open>fault\<close> gives for it and succeeds otherwise; an image is stood for by its path, a
  detection by a string, and the range visits the keys in the order of the list.
\<close>

definition stub ::
  "rat os \<Rightarrow> ((rat, string) call \<Rightarrow> string option) \<Rightarrow> string list \<Rightarrow> (rat, string, string) lib" where
  "stub E fault dets =
     \<lparr>ReadDir = ReadDir E, ReadFile = ReadFile E, ParseFloat = ParseFloat E,
      ToLower = lower_ascii,
      rangeOrder = map fst,
      NewYoloV3 = (\<lambda>h n b l c w. fault (CallNewYoloV3 n b l c w)),
      GetFloat32Image =
        (\<lambda>h path height width.
           case fault (CallGetFloat32Image path height width) of Some e \<Rightarrow> Inl e | None \<Rightarrow> Inr path),
      Let_input = (\<lambda>h imgf32. fault (CallLet imgf32)),
      RunAll = (\<lambda>h. fault CallRunAll),
      ProcessOutput =
        (\<lambda>h classes st it.
           case fault (CallProcessOutput classes st it) of Some e \<Rightarrow> Inl e | None \<Rightarrow> Inr dets),
      ActivateTrainingMode = (\<lambda>h. fault CallActivateTrainingMode),
      Concat = (\<lambda>h. fault CallConcat),
      Sum_costs = (\<lambda>h. fault CallSum),
      Grad = (\<lambda>h. fault CallGrad),
      Compile = (\<lambda>h. fault CallCompile),
      SetTarget = (\<lambda>h target. fault (CallSetTarget target)),
      Step = (\<lambda>h r. fault (CallStep r))\<rparr>"

definition no_fault :: "(rat, string) call \<Rightarrow> string option" where
  "no_fault c = None"

definition fault_at :: "(rat, string) call \<Rightarrow> string \<Rightarrow> (rat, string) call \<Rightarrow> string option" where
  "fault_at bad msg c = (if c = bad then Some msg else None)"

definition fault_in :: "string \<Rightarrow> string \<Rightarrow> (rat, string) call \<Rightarrow> string option" where
  "fault_in name msg c = (if op_name c = name then Some msg else None)"

definition flags_of :: "string \<Rightarrow> flags" where
  "flags_of mode =
     \<lparr>modeStr = mode, weights = ''yolov3-tiny.weights'', cfg = ''yolov3-tiny.cfg'',
      imagePath = ''dog_416x416.jpg'', trainingFolder = ''d''\<rparr>"

lemmas eval_stub =
  stub_def no_fault_def fault_at_def fault_in_def flags_of_def lower_ascii_def

lemmas eval_main =
  main_def detector_def training_def iteration_def index_map_def imageOf_def prologue_def
  construction_def before_loop_def imgWidth_def imgHeight_def channels_def boxes_def
  leakyCoef_def scoreThreshold_def iouThreshold_def

text \<open>
  A library for the detector examples: every call succeeds, and \<open>ProcessOutput\<close> is the
  post-processing of the specification on the given candidate boxes.
\<close>

definition detector_lib :: "detection list \<Rightarrow> (rat, string, detection) lib" where
  "detector_lib candidates =
     \<lparr>ReadDir = ReadDir sample_folder, ReadFile = ReadFile sample_folder,
      ParseFloat = ParseFloat sample_folder,
      ToLower = lower_ascii,
      rangeOrder = map fst,
      NewYoloV3 = (\<lambda>h n b l c w. None),
      GetFloat32Image = (\<lambda>h path height width. Inr path),
      Let_input = (\<lambda>h imgf32. None),
      RunAll = (\<lambda>h. None),
      ProcessOutput = (\<lambda>h classes st it. Inr (ProcessOutput_spec candidates st it)),
      ActivateTrainingMode = (\<lambda>h. None),
      Concat = (\<lambda>h. None),
      Sum_costs = (\<lambda>h. None),
      Grad = (\<lambda>h. None),
      Compile = (\<lambda>h. None),
      SetTarget = (\<lambda>h target. None),
      Step = (\<lambda>h r. None)\<rparr>"

definition dog_boxes :: "detection list" where
  "dog_boxes =
     [\<lparr>className = ''bicycle'', score = 85 / 100, rect = \<lparr>xmin = 50, ymin = 60, xmax = 250, ymax = 300\<rparr>\<rparr>,
      \<lparr>className = ''dog'', score = 9 / 10, rect = \<lparr>xmin = 110, ymin = 100, xmax = 210, ymax = 200\<rparr>\<rparr>,
      \<lparr>className = ''dog'', score = 95 / 100, rect = \<lparr>xmin = 100, ymin = 100, xmax = 200, ymax = 200\<rparr>\<rparr>,
      \<lparr>className = ''cat'', score = 1 / 2, rect = \<lparr>xmin = 100, ymin = 100, xmax = 200, ymax = 200\<rparr>\<rparr>]"

section \<open>The annotation parser: proofs\<close>

subsection \<open>Splitting and trimming\<close>

lemma split_from_hd:
  "\<exists>rest. split_from s sep cur = (cur @ takeWhile (\<lambda>c. c \<noteq> sep) s) # rest"
proof (induction s arbitrary: cur)
  case Nil
  show ?case by simp
next
  case (Cons a s)
  from Cons [of "cur @ [a]"] Cons [of "[]"] show ?case by auto
qed

lemma Split_stem: "\<exists>rest. Split name dot = stem name # rest"
  using split_from_hd [of name dot "[]"] by (simp add: Split_def stem_def)

lemma Split_not_Nil: "Split name sep \<noteq> []"
  using split_from_hd [of name sep "[]"] by (auto simp: Split_def)

lemma split_from_Split:
  "split_from s sep cur = (cur @ hd (Split s sep)) # tl (Split s sep)"
  unfolding Split_def
proof (induction s arbitrary: cur)
  case Nil
  show ?case by simp
next
  case (Cons a s)
  from Cons [of "cur @ [a]"] Cons [of "[a]"] show ?case by simp
qed

lemma Split_Cons:
  "Split (c # s) sep =
     (if c = sep then [] # Split s sep else (c # hd (Split s sep)) # tl (Split s sep))"
  using split_from_Split [of s sep "[c]"] by (simp add: Split_def)

lemma Split_Nil: "Split [] sep = [[]]"
  by (simp add: Split_def)

subsection \<open>The inner loop\<close>

lemma parse_entities_accepted:
  "list_all (accepted pf) (filter (\<lambda>entity. entity \<noteq> []) (map TrimSpace pieces)) \<Longrightarrow>
   parse_entities pf pieces acc =
     Inr (acc @ concat (map (parsed pf) (filter (\<lambda>entity. entity \<noteq> []) (map TrimSpace pieces))))"
  by (induction pieces arbitrary: acc)
     (auto simp: accepted_def parsed_def Let_def split: sum.splits if_splits)

lemma parse_entities_rejected:
  "\<not> list_all (accepted pf) (filter (\<lambda>entity. entity \<noteq> []) (map TrimSpace pieces)) \<Longrightarrow>
   \<exists>msg. parse_entities pf pieces acc = Inl (FromParseFloat msg)"
  by (induction pieces arbitrary: acc) (auto simp: accepted_def Let_def split: sum.splits if_splits)

lemma parse_entities_error:
  "parse_entities pf pieces acc = Inl e \<Longrightarrow> \<exists>msg. e = FromParseFloat msg"
  by (induction pieces arbitrary: acc) (auto simp: Let_def split: sum.splits if_splits)

subsection \<open>The outer loop\<close>

lemma scan_files_valid:
  "list_all (\<lambda>fi. is_txt fi \<longrightarrow> valid_file E dir fi) infos \<Longrightarrow>
   scan_files E dir infos targets = Inr (fold (store E dir) infos targets)"
proof (induction infos arbitrary: targets)
  case Nil
  then show ?case by simp
next
  case (Cons fi infos)
  show ?case
  proof (cases "is_txt fi")
    case False
    with Cons show ?thesis by (auto simp: is_txt_def store_def)
  next
    case True
    with Cons.prems have v: "valid_file E dir fi" by simp
    then obtain fileBytes where r: "ReadFile E (filePath dir (Name fi)) = Inr fileBytes"
      by (auto simp: valid_file_def readable_def split: sum.splits)
    with v have a: "list_all (accepted (ParseFloat E)) (entities fileBytes)"
      by (simp add: valid_file_def content_def)
    have p: "parse_entities (ParseFloat E) (fileContentAsArray fileBytes) [] = Inr (floats_of E dir fi)"
      using parse_entities_accepted [of "ParseFloat E" "fileContentAsArray fileBytes" "[]"] a r
      by (simp add: entities_def floats_of_def content_def)
    obtain rest where s: "Split (Name fi) dot = stem (Name fi) # rest"
      using Split_stem by blast
    from Cons True r p s show ?thesis
      by (simp add: is_txt_def store_def)
  qed
qed

lemma scan_files_invalid:
  "fi \<in> set infos \<Longrightarrow> is_txt fi \<Longrightarrow> \<not> valid_file E dir fi \<Longrightarrow>
   \<exists>msg. scan_files E dir infos targets = Inl (FromParseFloat msg) \<or>
         scan_files E dir infos targets = Inl (FromReadFile msg)"
proof (induction infos arbitrary: targets)
  case Nil
  then show ?case by simp
next
  case (Cons x infos)
  show ?case
  proof (cases "is_txt x \<and> \<not> valid_file E dir x")
    case True
    show ?thesis
    proof (cases "ReadFile E (filePath dir (Name x))")
      case (Inl e)
      with True show ?thesis by (auto simp: is_txt_def)
    next
      case (Inr fileBytes)
      with True have "\<not> list_all (accepted (ParseFloat E)) (entities fileBytes)"
        by (simp add: valid_file_def readable_def content_def)
      then obtain msg where
        "parse_entities (ParseFloat E) (fileContentAsArray fileBytes) [] = Inl (FromParseFloat msg)"
        using parse_entities_rejected [of "ParseFloat E" "fileContentAsArray fileBytes" "[]"]
        by (auto simp: entities_def)
      with True Inr show ?thesis by (auto simp: is_txt_def)
    qed
  next
    case False
    with Cons.prems have "fi \<in> set infos" by auto
    from Cons.IH [OF this Cons.prems(2,3)] show ?thesis
      by (auto simp: is_txt_def Split_not_Nil split: sum.splits list.splits
               dest: parse_entities_error)
  qed
qed

lemma fold_store_keys:
  "fst ` set (fold (store E dir) infos targets) =
     fst ` set targets \<union> (\<lambda>fi. stem (Name fi)) ` {fi \<in> set infos. is_txt fi}"
  by (induction infos arbitrary: targets) (auto simp: store_def dom_update)

lemma fold_store_distinct:
  "distinct (map fst targets) \<Longrightarrow> distinct (map fst (fold (store E dir) infos targets))"
  by (induction infos arbitrary: targets) (auto simp: store_def distinct_update)

lemma map_of_store:
  "map_of (store E dir fi targets) k =
     (if is_txt fi \<and> stem (Name fi) = k then Some (floats_of E dir fi) else map_of targets k)"
  by (simp add: store_def update_conv')

lemma fold_store_map_of:
  "map_of (fold (store E dir) infos targets) k =
     (if files_of_key infos k = [] then map_of targets k
      else Some (floats_of E dir (last (files_of_key infos k))))"
proof (induction infos arbitrary: targets)
  case Nil
  show ?case by (simp add: files_of_key_def)
next
  case (Cons fi infos)
  have "map_of (fold (store E dir) (fi # infos) targets) k =
          (if files_of_key infos k = [] then map_of (store E dir fi targets) k
           else Some (floats_of E dir (last (files_of_key infos k))))"
    by (simp add: Cons)
  then show ?case
    by (simp add: files_of_key_def map_of_store)
qed

lemma fold_store_none:
  "list_all (\<lambda>fi. \<not> is_txt fi) infos \<Longrightarrow> fold (store E dir) infos targets = targets"
  by (induction infos) (simp_all add: store_def)

lemma filter_distinct_key:
  "distinct (map f ys) \<Longrightarrow> x \<in> set ys \<Longrightarrow> filter (\<lambda>y. f y = f x) ys = [x]"
proof (induction ys)
  case Nil
  then show ?case by simp
next
  case (Cons y ys)
  then show ?case by (auto simp: filter_empty_conv image_iff)
qed

lemma files_of_key_distinct:
  assumes "distinct (map (\<lambda>fi. stem (Name fi)) (filter is_txt infos))"
      and "fi \<in> set infos" and "is_txt fi"
  shows "files_of_key infos (stem (Name fi)) = [fi]"
proof -
  have "files_of_key infos (stem (Name fi)) =
        filter (\<lambda>y. stem (Name y) = stem (Name fi)) (filter is_txt infos)"
    by (simp add: files_of_key_def conj_commute)
  also have "\<dots> = [fi]"
    using filter_distinct_key [of "\<lambda>fi. stem (Name fi)" "filter is_txt infos" fi] assms by simp
  finally show ?thesis .
qed

subsection \<open>A folder without annotation files\<close>

text \<open>
  C3. A directory that can be listed and has no entry that is both a non-directory and
  of extension exactly \<open>.txt\<close> makes \<open>parseFolder\<close> return its own error, and no map.
\<close>

theorem parseFolder_no_txt_files:
  assumes "ReadDir E dir = Inr infos"
      and "list_all (\<lambda>fi. IsDir fi \<or> Ext (Name fi) \<noteq> ''.txt'') infos"
  shows "parseFolder E dir = Inl (NoTxtFiles dir)"
proof -
  from assms(2) have n: "list_all (\<lambda>fi. \<not> is_txt fi) infos"
    by (simp add: list_all_iff is_txt_def)
  then have "list_all (\<lambda>fi. is_txt fi \<longrightarrow> valid_file E dir fi) infos"
    by (simp add: list_all_iff)
  then have "scan_files E dir infos [] = Inr (fold (store E dir) infos [])"
    by (rule scan_files_valid)
  with n assms(1) show ?thesis
    by (simp add: parseFolder_def fold_store_none)
qed

theorem parseFolder_no_txt_files_witness:
  "ReadDir no_txt_folder ''d'' =
     Inr [\<lparr>Name = ''notes.md'', IsDir = False\<rparr>, \<lparr>Name = ''old.txt'', IsDir = True\<rparr>] \<and>
   parseFolder no_txt_folder ''d'' = Inl (NoTxtFiles ''d'')"
proof -
  have l: "ReadDir no_txt_folder ''d'' =
             Inr [\<lparr>Name = ''notes.md'', IsDir = False\<rparr>, \<lparr>Name = ''old.txt'', IsDir = True\<rparr>]"
    by (simp add: no_txt_folder_def folder_def)
  have n: "list_all (\<lambda>fi. IsDir fi \<or> Ext (Name fi) \<noteq> ''.txt'')
             [\<lparr>Name = ''notes.md'', IsDir = False\<rparr>, \<lparr>Name = ''old.txt'', IsDir = True\<rparr>]"
    by (simp add: eval_strings)
  from l parseFolder_no_txt_files [OF l n] show ?thesis by simp
qed

subsection \<open>A folder of valid annotation files\<close>

text \<open>
  C1, as amended. Let a directory be listed, let it have at least one entry that is a
  non-directory of extension exactly \<open>.txt\<close>, and let each such entry be readable with
  every entity (the pieces of the content between spaces and newlines, trimmed of
  surrounding white space, the empty ones dropped) accepted by the float parser. Then
  \<open>parseFolder\<close> returns a map. Its keys are distinct and are exactly the names of those
  entries cut at the first dot. The value of a key is the float sequence, in file order,
  of the last entry in listing order that has this key; so when no two entries share a
  key, every file is stored under its own key with its own floats.
\<close>

theorem parseFolder_valid_folder:
  assumes "ReadDir E dir = Inr infos"
      and "list_ex is_txt infos"
      and "list_all (\<lambda>fi. is_txt fi \<longrightarrow> valid_file E dir fi) infos"
  shows "\<exists>targets. parseFolder E dir = Inr targets \<and> distinct (map fst targets) \<and>
           fst ` set targets = (\<lambda>fi. stem (Name fi)) ` {fi \<in> set infos. is_txt fi} \<and>
           (\<forall>k \<in> fst ` set targets.
              map_of targets k = Some (floats_of E dir (last (files_of_key infos k)))) \<and>
           (distinct (map (\<lambda>fi. stem (Name fi)) (filter is_txt infos)) \<longrightarrow>
              (\<forall>fi \<in> set infos. is_txt fi \<longrightarrow>
                 map_of targets (stem (Name fi)) = Some (floats_of E dir fi)))"
proof -
  let ?t = "fold (store E dir) infos []"
  have s: "scan_files E dir infos [] = Inr ?t"
    using assms(3) by (rule scan_files_valid)
  have k: "fst ` set ?t = (\<lambda>fi. stem (Name fi)) ` {fi \<in> set infos. is_txt fi}"
    by (simp add: fold_store_keys)
  from assms(2) have "fst ` set ?t \<noteq> {}"
    unfolding k by (auto simp: list_ex_iff)
  then have n: "?t \<noteq> []" by auto
  have p: "parseFolder E dir = Inr ?t"
    using assms(1) s n by (simp add: parseFolder_def)
  have d: "distinct (map fst ?t)"
    by (rule fold_store_distinct) simp
  have m: "\<forall>k \<in> fst ` set ?t. map_of ?t k = Some (floats_of E dir (last (files_of_key infos k)))"
  proof
    fix k assume "k \<in> fst ` set ?t"
    then have "files_of_key infos k \<noteq> []"
      unfolding k by (auto simp: files_of_key_def filter_empty_conv)
    then show "map_of ?t k = Some (floats_of E dir (last (files_of_key infos k)))"
      by (simp add: fold_store_map_of)
  qed
  have o: "distinct (map (\<lambda>fi. stem (Name fi)) (filter is_txt infos)) \<longrightarrow>
              (\<forall>fi \<in> set infos. is_txt fi \<longrightarrow>
                 map_of ?t (stem (Name fi)) = Some (floats_of E dir fi))"
    by (auto simp: fold_store_map_of files_of_key_distinct)
  from p d k m o show ?thesis by blast
qed

text \<open>The folder of the specification's example: \<open>sample1.txt\<close> beside \<open>sample1.jpg\<close>.\<close>

theorem parseFolder_valid_folder_witness:
  "ReadDir sample_folder ''d'' =
     Inr [\<lparr>Name = ''sample1.jpg'', IsDir = False\<rparr>, \<lparr>Name = ''sample1.txt'', IsDir = False\<rparr>] \<and>
   valid_file sample_folder ''d'' \<lparr>Name = ''sample1.txt'', IsDir = False\<rparr> \<and>
   floats_of sample_folder ''d'' \<lparr>Name = ''sample1.txt'', IsDir = False\<rparr> = [1 / 10, 1 / 5, 3 / 10, 2 / 5] \<and>
   (\<exists>targets. parseFolder sample_folder ''d'' = Inr targets \<and> fst ` set targets = {''sample1''} \<and>
      map_of targets ''sample1'' = Some [1 / 10, 1 / 5, 3 / 10, 2 / 5])"
proof -
  let ?jpg = "\<lparr>Name = ''sample1.jpg'', IsDir = False\<rparr>"
  let ?txt = "\<lparr>Name = ''sample1.txt'', IsDir = False\<rparr>"
  have l: "ReadDir sample_folder ''d'' = Inr [?jpg, ?txt]"
    by (simp add: sample_folder_def folder_def)
  have j: "\<not> is_txt ?jpg"
    by (simp add: is_txt_def eval_strings)
  have t: "is_txt ?txt"
    by (simp add: is_txt_def eval_strings)
  have v: "valid_file sample_folder ''d'' ?txt"
    by (simp add: sample_folder_def eval_folder eval_strings)
  have f: "floats_of sample_folder ''d'' ?txt = [1 / 10, 1 / 5, 3 / 10, 2 / 5]"
    by (simp add: sample_folder_def eval_folder eval_strings)
  have s: "stem ''sample1.txt'' = ''sample1''"
    by (simp add: eval_strings)
  have e: "list_ex is_txt [?jpg, ?txt]"
    using t by simp
  have a: "list_all (\<lambda>fi. is_txt fi \<longrightarrow> valid_file sample_folder ''d'' fi) [?jpg, ?txt]"
    using j v by simp
  have d: "distinct (map (\<lambda>fi. stem (Name fi)) (filter is_txt [?jpg, ?txt]))"
    using j t by simp
  have ks: "(\<lambda>fi. stem (Name fi)) ` {fi \<in> set [?jpg, ?txt]. is_txt fi} = {''sample1''}"
  proof -
    have "{fi \<in> set [?jpg, ?txt]. is_txt fi} = {?txt}" using j t by auto
    then show ?thesis using s by simp
  qed
  from parseFolder_valid_folder [OF l e a] d obtain targets where
    "parseFolder sample_folder ''d'' = Inr targets"
    "fst ` set targets = (\<lambda>fi. stem (Name fi)) ` {fi \<in> set [?jpg, ?txt]. is_txt fi}"
    "\<forall>fi \<in> set [?jpg, ?txt]. is_txt fi \<longrightarrow>
       map_of targets (stem (Name fi)) = Some (floats_of sample_folder ''d'' fi)"
    by blast
  with t s f ks have "parseFolder sample_folder ''d'' = Inr targets \<and> fst ` set targets = {''sample1''} \<and>
      map_of targets ''sample1'' = Some [1 / 10, 1 / 5, 3 / 10, 2 / 5]"
    by simp
  with l v f show ?thesis by blast
qed

text \<open>
  The claim as the specification states it fails in two ways. A file whose two numbers
  are separated by a tab is a file of white-space separated floats, and \<open>parseFolder\<close>
  fails on it: it splits at spaces and newlines only, so the float parser gets the whole
  line. And two valid files whose names agree up to the first dot share one key: the map
  keeps the floats of the later one, and those of \<open>a.b.txt\<close> are gone.
\<close>

theorem parseFolder_claim_counterexample:
  "tokens [CHR ''1'', CHR 0x09, CHR ''2''] = [''1'', ''2''] \<and>
   accepted decimal ''1'' \<and> accepted decimal ''2'' \<and>
   ReadDir tab_folder ''d'' = Inr [\<lparr>Name = ''a.txt'', IsDir = False\<rparr>] \<and>
   ReadFile tab_folder ''d/a.txt'' = Inr [CHR ''1'', CHR 0x09, CHR ''2''] \<and>
   parseFolder tab_folder ''d'' = Inl (FromParseFloat ''invalid syntax'') \<and>
   ReadDir collision_folder ''d'' =
     Inr [\<lparr>Name = ''a.b.txt'', IsDir = False\<rparr>, \<lparr>Name = ''a.txt'', IsDir = False\<rparr>] \<and>
   valid_file collision_folder ''d'' \<lparr>Name = ''a.b.txt'', IsDir = False\<rparr> \<and>
   valid_file collision_folder ''d'' \<lparr>Name = ''a.txt'', IsDir = False\<rparr> \<and>
   stem ''a.b.txt'' = ''a'' \<and>
   floats_of collision_folder ''d'' \<lparr>Name = ''a.b.txt'', IsDir = False\<rparr> = [2] \<and>
   parseFolder collision_folder ''d'' = Inr [(''a'', [1])] \<and>
   map_of [(''a'', [1::rat])] (stem ''a.b.txt'') \<noteq>
     Some (floats_of collision_folder ''d'' \<lparr>Name = ''a.b.txt'', IsDir = False\<rparr>)"
  by (simp add: tab_folder_def collision_folder_def parseFolder_def eval_folder eval_strings)

subsection \<open>A malformed annotation file\<close>

text \<open>
  C2. When some \<open>.txt\<close> file of the directory can be read and one of its entities is not
  accepted by the float parser, \<open>parseFolder\<close> returns an error, the parser's or that of
  an unreadable file met earlier, and the result carries no map.
\<close>

theorem parseFolder_malformed_file:
  assumes "ReadDir E dir = Inr infos"
      and "fi \<in> set infos" and "is_txt fi" and "readable E dir fi"
      and "list_ex (\<lambda>entity. \<not> accepted (ParseFloat E) entity) (entities (content E dir fi))"
  shows "\<exists>msg. parseFolder E dir = Inl (FromParseFloat msg) \<or>
               parseFolder E dir = Inl (FromReadFile msg)"
proof -
  from assms(5) have "\<not> valid_file E dir fi"
    by (auto simp: valid_file_def list_ex_iff list_all_iff)
  from scan_files_invalid [OF assms(2,3) this, of "[]"] assms(1) show ?thesis
    by (auto simp: parseFolder_def)
qed

theorem parseFolder_malformed_file_witness:
  "ReadDir malformed_folder ''d'' = Inr [\<lparr>Name = ''bad.txt'', IsDir = False\<rparr>] \<and>
   entities (content malformed_folder ''d'' \<lparr>Name = ''bad.txt'', IsDir = False\<rparr>) = [''1.0'', ''abc'', ''2.0''] \<and>
   \<not> accepted (ParseFloat malformed_folder) ''abc'' \<and>
   (\<exists>msg. parseFolder malformed_folder ''d'' = Inl (FromParseFloat msg) \<or>
          parseFolder malformed_folder ''d'' = Inl (FromReadFile msg)) \<and>
   parseFolder malformed_folder ''d'' = Inl (FromParseFloat ''invalid syntax'')"
proof -
  let ?bad = "\<lparr>Name = ''bad.txt'', IsDir = False\<rparr>"
  have l: "ReadDir malformed_folder ''d'' = Inr [?bad]"
    by (simp add: malformed_folder_def folder_def)
  have m: "?bad \<in> set [?bad]" by simp
  have t: "is_txt ?bad"
    by (simp add: is_txt_def eval_strings)
  have r: "readable malformed_folder ''d'' ?bad"
    by (simp add: malformed_folder_def eval_folder eval_strings)
  have c: "entities (content malformed_folder ''d'' ?bad) = [''1.0'', ''abc'', ''2.0'']"
    by (simp add: malformed_folder_def eval_folder eval_strings)
  have n: "\<not> accepted (ParseFloat malformed_folder) ''abc''"
    by (simp add: malformed_folder_def eval_folder eval_strings)
  have x: "list_ex (\<lambda>entity. \<not> accepted (ParseFloat malformed_folder) entity)
             (entities (content malformed_folder ''d'' ?bad))"
    using n by (simp add: c)
  have p: "parseFolder malformed_folder ''d'' = Inl (FromParseFloat ''invalid syntax'')"
    by (simp add: malformed_folder_def parseFolder_def eval_folder eval_strings)
  from parseFolder_malformed_file [OF l m t r x] l c n p show ?thesis by blast
qed

subsection \<open>A file of white space only\<close>

lemma isSpace2_bytes:
  "isSpace2 a b \<Longrightarrow> \<not> isSpace1 a \<and> a \<noteq> space \<and> a \<noteq> newline \<and> b \<noteq> space \<and> b \<noteq> newline"
  by (auto simp: isSpace1_def isSpace2_def space_def newline_def)

lemma isSpace3_bytes:
  "isSpace3 a b c \<Longrightarrow>
   \<not> isSpace1 a \<and> \<not> isSpace2 a b \<and> a \<noteq> space \<and> a \<noteq> newline \<and> b \<noteq> space \<and> b \<noteq> newline \<and>
   c \<noteq> space \<and> c \<noteq> newline"
  by (auto simp: isSpace1_def isSpace2_def isSpace3_def space_def newline_def)

lemma white_Cons1: "isSpace1 a \<Longrightarrow> white (a # p) = white p"
  by (cases p rule: white.cases) simp_all

lemma white_Cons2: "isSpace2 a b \<Longrightarrow> white (a # b # p) = white p"
  by (cases p) (simp_all add: isSpace2_bytes)

lemma white_Cons3: "isSpace3 a b c \<Longrightarrow> white (a # b # c # p) = white p"
  by (simp add: isSpace3_bytes)

lemma white_cases:
  "white s \<Longrightarrow>
   s = [] \<or> (\<exists>a p. s = a # p \<and> isSpace1 a \<and> white p) \<or>
   (\<exists>a b p. s = a # b # p \<and> isSpace2 a b \<and> white p) \<or>
   (\<exists>a b c p. s = a # b # c # p \<and> isSpace3 a b c \<and> white p)"
  by (cases s rule: white.cases) (auto split: if_splits)

lemma white_TrimLeft: "white s \<Longrightarrow> TrimLeft s = []"
  by (induction s rule: white.induct) (auto split: if_splits)

lemma white_TrimSpace: "white s \<Longrightarrow> TrimSpace s = []"
  by (simp add: TrimSpace_def TrimRight_def white_TrimLeft)

lemma white_ReplaceAll: "white s \<Longrightarrow> white (ReplaceAll s newline space)"
proof (induction s rule: length_induct)
  case (1 s)
  from white_cases [OF "1.prems"] show ?case
  proof (elim disjE exE conjE)
    assume "s = []" then show ?thesis by (simp add: ReplaceAll_def)
  next
    fix a p assume s: "s = a # p" and a: "isSpace1 a" and p: "white p"
    from a have "isSpace1 (if a = newline then space else a)"
      by (simp add: isSpace1_def space_def)
    moreover from "1.IH" s p have "white (ReplaceAll p newline space)" by simp
    ultimately show ?thesis using s by (simp add: ReplaceAll_def white_Cons1)
  next
    fix a b p assume s: "s = a # b # p" and a: "isSpace2 a b" and p: "white p"
    from "1.IH" s p have "white (ReplaceAll p newline space)" by simp
    then show ?thesis using s a isSpace2_bytes [OF a] by (simp add: ReplaceAll_def white_Cons2)
  next
    fix a b c p assume s: "s = a # b # c # p" and a: "isSpace3 a b c" and p: "white p"
    from "1.IH" s p have "white (ReplaceAll p newline space)" by simp
    then show ?thesis using s a isSpace3_bytes [OF a]
      by (simp add: ReplaceAll_def white_Cons3 del: white.simps)
  qed
qed

lemma white_Split: "white s \<Longrightarrow> list_all white (Split s space)"
proof (induction s rule: length_induct)
  case (1 s)
  have hd_tl: "\<And>t. list_all white (Split t space) \<Longrightarrow>
                 white (hd (Split t space)) \<and> list_all white (tl (Split t space))"
  proof -
    fix t assume a: "list_all white (Split t space)"
    obtain x xs where "Split t space = x # xs"
      using Split_not_Nil [of t space] by (cases "Split t space") auto
    with a show "white (hd (Split t space)) \<and> list_all white (tl (Split t space))" by simp
  qed
  from white_cases [OF "1.prems"] show ?case
  proof (elim disjE exE conjE)
    assume "s = []" then show ?thesis by (simp add: Split_Nil)
  next
    fix a p assume s: "s = a # p" and a: "isSpace1 a" and p: "white p"
    from "1.IH" s p have "list_all white (Split p space)" by simp
    from hd_tl [OF this] this show ?thesis using s a
      by (simp add: Split_Cons white_Cons1)
  next
    fix a b p assume s: "s = a # b # p" and a: "isSpace2 a b" and p: "white p"
    from "1.IH" s p have "list_all white (Split p space)" by simp
    from hd_tl [OF this] show ?thesis using s a isSpace2_bytes [OF a]
      by (simp add: Split_Cons white_Cons2)
  next
    fix a b c p assume s: "s = a # b # c # p" and a: "isSpace3 a b c" and p: "white p"
    from "1.IH" s p have "list_all white (Split p space)" by simp
    from hd_tl [OF this] show ?thesis using s a isSpace3_bytes [OF a]
      by (simp add: Split_Cons white_Cons3 del: white.simps)
  qed
qed

lemma white_entities: "white fileBytes \<Longrightarrow> entities fileBytes = []"
proof -
  assume "white fileBytes"
  then have "list_all white (fileContentAsArray fileBytes)"
    unfolding fileContentAsArray_def by (intro white_Split white_ReplaceAll)
  then show ?thesis
    by (auto simp: entities_def filter_empty_conv list_all_iff white_TrimSpace)
qed

lemma fold_store_only:
  assumes "\<forall>fj \<in> set infos. is_txt fj \<longrightarrow> fj = fi"
      and "targets = [] \<or> targets = [(stem (Name fi), floats_of E dir fi)]"
  shows "fold (store E dir) infos targets =
           (if fi \<in> set infos \<and> is_txt fi then [(stem (Name fi), floats_of E dir fi)] else targets)"
  using assms
proof (induction infos arbitrary: targets)
  case Nil
  then show ?case by simp
next
  case (Cons x infos)
  from Cons.prems(1) have r: "\<forall>fj \<in> set infos. is_txt fj \<longrightarrow> fj = fi" by simp
  show ?case
  proof (cases "is_txt x")
    case False
    then have "fold (store E dir) (x # infos) targets = fold (store E dir) infos targets"
      by (simp add: store_def)
    with Cons.IH [OF r Cons.prems(2)] False show ?thesis by auto
  next
    case True
    with Cons.prems(1) have x: "x = fi" by simp
    from Cons.prems(2) have u: "store E dir fi targets = [(stem (Name fi), floats_of E dir fi)]"
      using True x by (auto simp: store_def)
    have "fold (store E dir) (x # infos) targets =
            fold (store E dir) infos [(stem (Name fi), floats_of E dir fi)]"
      using x u by simp
    with Cons.IH [OF r, of "[(stem (Name fi), floats_of E dir fi)]"] True x show ?thesis by simp
  qed
qed

text \<open>
  C9. A \<open>.txt\<close> file that is empty or holds white space only has no entities: its inner
  loop ends without error and with the empty vector. When it is the only \<open>.txt\<close> file
  of the directory, \<open>parseFolder\<close> returns the map with the one key of this file and the
  empty vector, so the error of a folder without annotation files is not raised. Beside
  other valid files the run succeeds too, and the key of the file holds the empty vector
  unless a later file takes the key.
\<close>

theorem parseFolder_blank_file:
  assumes "ReadDir E dir = Inr infos"
      and "fi \<in> set infos" and "is_txt fi"
      and "ReadFile E (filePath dir (Name fi)) = Inr fileBytes"
      and "white fileBytes"
  shows "parse_entities (ParseFloat E) (fileContentAsArray fileBytes) [] = Inr [] \<and>
         ((\<forall>fj \<in> set infos. is_txt fj \<longrightarrow> fj = fi) \<longrightarrow>
            parseFolder E dir = Inr [(stem (Name fi), [])]) \<and>
         (list_all (\<lambda>fj. is_txt fj \<longrightarrow> valid_file E dir fj) (removeAll fi infos) \<longrightarrow>
            (\<exists>targets. parseFolder E dir = Inr targets \<and> stem (Name fi) \<in> fst ` set targets \<and>
               (last (files_of_key infos (stem (Name fi))) = fi \<longrightarrow>
                  map_of targets (stem (Name fi)) = Some [])))"
proof -
  have e: "entities fileBytes = []"
    using assms(5) by (rule white_entities)
  have c: "content E dir fi = fileBytes"
    using assms(4) by (simp add: content_def)
  have v: "valid_file E dir fi"
    using assms(4) e c by (simp add: valid_file_def readable_def)
  have f: "floats_of E dir fi = []"
    using e c by (simp add: floats_of_def)
  have 1: "parse_entities (ParseFloat E) (fileContentAsArray fileBytes) [] = Inr []"
    using parse_entities_accepted [of "ParseFloat E" "fileContentAsArray fileBytes" "[]"] e
    by (simp add: entities_def)
  have 2: "parseFolder E dir = Inr [(stem (Name fi), [])]"
    if only: "\<forall>fj \<in> set infos. is_txt fj \<longrightarrow> fj = fi"
  proof -
    from only v have "list_all (\<lambda>fj. is_txt fj \<longrightarrow> valid_file E dir fj) infos"
      by (auto simp: list_all_iff)
    then have "scan_files E dir infos [] = Inr (fold (store E dir) infos [])"
      by (rule scan_files_valid)
    moreover have "fold (store E dir) infos [] = [(stem (Name fi), floats_of E dir fi)]"
      using fold_store_only [OF only, of "[]" E dir] assms(2,3) by simp
    ultimately show ?thesis using assms(1) f by (simp add: parseFolder_def)
  qed
  have 3: "\<exists>targets. parseFolder E dir = Inr targets \<and> stem (Name fi) \<in> fst ` set targets \<and>
               (last (files_of_key infos (stem (Name fi))) = fi \<longrightarrow>
                  map_of targets (stem (Name fi)) = Some [])"
    if others: "list_all (\<lambda>fj. is_txt fj \<longrightarrow> valid_file E dir fj) (removeAll fi infos)"
  proof -
    let ?t = "fold (store E dir) infos []"
    from others v have "list_all (\<lambda>fj. is_txt fj \<longrightarrow> valid_file E dir fj) infos"
      by (auto simp: list_all_iff)
    then have s: "scan_files E dir infos [] = Inr ?t"
      by (rule scan_files_valid)
    have k: "stem (Name fi) \<in> fst ` set ?t"
      using assms(2,3) by (auto simp: fold_store_keys)
    then have "?t \<noteq> []" by auto
    with s assms(1) have p: "parseFolder E dir = Inr ?t"
      by (simp add: parseFolder_def)
    have n: "files_of_key infos (stem (Name fi)) \<noteq> []"
      using assms(2,3) by (auto simp: files_of_key_def filter_empty_conv)
    have "last (files_of_key infos (stem (Name fi))) = fi \<longrightarrow> map_of ?t (stem (Name fi)) = Some []"
      using n f by (simp add: fold_store_map_of)
    with p k show ?thesis by blast
  qed
  from 1 2 3 show ?thesis by blast
qed

theorem parseFolder_blank_file_witness:
  "ReadDir blank_folder ''d'' = Inr [\<lparr>Name = ''blank.txt'', IsDir = False\<rparr>] \<and>
   ReadFile blank_folder ''d/blank.txt'' = Inr [CHR 0x20, CHR 0x0A, CHR 0x09, CHR 0xC2, CHR 0xA0] \<and>
   white [CHR 0x20, CHR 0x0A, CHR 0x09, CHR 0xC2, CHR 0xA0] \<and>
   parseFolder blank_folder ''d'' = Inr [(''blank'', [])]"
proof -
  let ?fi = "\<lparr>Name = ''blank.txt'', IsDir = False\<rparr>"
  let ?b = "[CHR 0x20, CHR 0x0A, CHR 0x09, CHR 0xC2, CHR 0xA0]"
  have l: "ReadDir blank_folder ''d'' = Inr [?fi]"
    by (simp add: blank_folder_def folder_def)
  have m: "?fi \<in> set [?fi]" by simp
  have t: "is_txt ?fi"
    by (simp add: is_txt_def eval_strings)
  have r: "ReadFile blank_folder (filePath ''d'' (Name ?fi)) = Inr ?b"
    by (simp add: blank_folder_def folder_def eval_strings)
  have w: "white ?b"
    by (simp add: isSpace1_def isSpace2_def isSpace3_def)
  have o: "\<forall>fj \<in> set [?fi]. is_txt fj \<longrightarrow> fj = ?fi" by simp
  have s: "stem (Name ?fi) = ''blank''"
    by (simp add: eval_strings)
  from parseFolder_blank_file [OF l m t r w] o s
  have "parseFolder blank_folder ''d'' = Inr [(''blank'', [])]" by simp
  moreover from r have "ReadFile blank_folder ''d/blank.txt'' = Inr ?b"
    by (simp add: eval_strings)
  ultimately show ?thesis using l w by blast
qed

section \<open>The driver: proofs\<close>

subsection \<open>The network is built first; an unknown mode\<close>

lemma length_cocoClasses: "length cocoClasses = 80"
  by (simp add: cocoClasses_def)

lemma iteration_extends:
  "\<exists>ev. snd (snd (iteration L dir labeledData i iter solver h)) = h @ ev"
  by (simp add: iteration_def Let_def split: sum.splits option.splits)

lemma training_loop_extends:
  "\<exists>ev. snd (training_loop L dir labeledData keys iter solver h) = h @ ev"
proof (induction keys arbitrary: iter solver h)
  case Nil
  show ?case by simp
next
  case (Cons i keys)
  obtain fl solver' h' where it: "iteration L dir labeledData i iter solver h = (fl, solver', h')"
    by (cases "iteration L dir labeledData i iter solver h") auto
  with iteration_extends [of L dir labeledData i iter solver h] obtain ev where h': "h' = h @ ev"
    by auto
  show ?case
  proof (cases fl)
    case Next
    from Cons [of "iter + 1" solver' h'] obtain ev' where
      "snd (training_loop L dir labeledData keys (iter + 1) solver' h') = h' @ ev'" by blast
    with it Next h' show ?thesis by simp
  next
    case Returned
    with it h' show ?thesis by simp
  qed
qed

lemma training_extends: "\<exists>ev. training L F h = h @ ev"
proof (cases "parseFolder L (trainingFolder F)")
  case (Inl e)
  then show ?thesis by (simp add: training_def)
next
  case (Inr labeledData)
  let ?h5 = "h @ [Call CallActivateTrainingMode, Call CallConcat, Call CallSum, Call CallGrad,
                  Call CallCompile, Call CallNewTapeMachine]"
  obtain ev where "snd (training_loop L (trainingFolder F) labeledData (rangeOrder L labeledData) 0
                     (RMSPropSolver (1 / 100000)) ?h5) = ?h5 @ ev"
    using training_loop_extends by blast
  with Inr show ?thesis
    by (simp add: training_def Let_def split: option.splits)
qed

lemma detector_extends: "\<exists>ev. detector L F h = h @ ev"
  by (simp add: detector_def Let_def split: sum.splits option.splits)

lemma main_cases:
  "main L G =
     (case construction L G of
        Some e \<Rightarrow> prologue G @ [Print (CantPrepareNetwork e)]
      | None \<Rightarrow>
          if ToLower L (modeStr G) = ''detector'' then detector L G (prologue G @ [Call CallPrint])
          else if ToLower L (modeStr G) = ''training'' then training L G (prologue G @ [Call CallPrint])
          else prologue G @ [Call CallPrint, Print (ModeNotImplemented (modeStr G))])"
  by (simp add: main_def construction_def prologue_def Let_def split: option.splits)

text \<open>
  C10. Every run starts with the graph, the input node and the construction of the
  network from the cfg and weights paths, whatever the mode string: the first four
  entries of the log do not depend on it. When the construction fails, the run is these
  three calls and the report of the failure, for every mode string, the unknown ones
  included. When it succeeds, the model is printed next, before anything of a mode.
\<close>

theorem main_builds_network_first:
  "take 3 (main L F) = prologue F \<and>
   (\<forall>mode. take 4 (main L (F\<lparr>modeStr := mode\<rparr>)) = take 4 (main L F)) \<and>
   (\<forall>e. construction L F = Some e \<longrightarrow> main L F = prologue F @ [Print (CantPrepareNetwork e)]) \<and>
   (construction L F = None \<longrightarrow> take 4 (main L F) = prologue F @ [Call CallPrint])"
proof -
  have d: "take 4 (detector L G (prologue G @ [Call CallPrint])) = prologue G @ [Call CallPrint]" for G
    using detector_extends [of L G "prologue G @ [Call CallPrint]"] by (auto simp: prologue_def)
  have t: "take 4 (training L G (prologue G @ [Call CallPrint])) = prologue G @ [Call CallPrint]" for G
    using training_extends [of L G "prologue G @ [Call CallPrint]"] by (auto simp: prologue_def)
  note m = main_cases
  have 4: "take 4 (main L G) =
            (case construction L G of
               Some e \<Rightarrow> prologue G @ [Print (CantPrepareNetwork e)]
             | None \<Rightarrow> prologue G @ [Call CallPrint])" for G
    using d [of G] t [of G] by (simp add: m split: option.splits) (simp add: prologue_def)
  have c: "construction L (F\<lparr>modeStr := mode\<rparr>) = construction L F" for mode
    by (simp add: construction_def)
  have p: "prologue (F\<lparr>modeStr := mode\<rparr>) = (prologue F :: ('a, 'b, 'c) event list)" for mode
    by (simp add: prologue_def)
  have "take 3 (take 4 (main L F)) = prologue F"
    unfolding 4 by (simp add: prologue_def split: option.splits)
  then have 3: "take 3 (main L F) = prologue F" by simp
  have i: "take 4 (main L (F\<lparr>modeStr := mode\<rparr>)) = take 4 (main L F)" for mode
    unfolding 4 c p ..
  have f: "main L F = prologue F @ [Print (CantPrepareNetwork e)]" if "construction L F = Some e" for e
    using that by (simp add: m)
  have s: "take 4 (main L F) = prologue F @ [Call CallPrint]" if "construction L F = None"
    using that by (simp add: 4)
  from 3 i f s show ?thesis by blast
qed


text \<open>
  A run in training mode whose weights file is missing, and a run with an unknown mode.
\<close>

theorem main_builds_network_first_witness:
  "construction (stub sample_folder (fault_in ''NewYoloV3'' ''no such file'') []) (flags_of ''training'')
     = Some ''no such file'' \<and>
   main (stub sample_folder (fault_in ''NewYoloV3'' ''no such file'') []) (flags_of ''training'') =
     [Call CallNewGraph, Call (CallNewTensor 3 416 416),
      Call (CallNewYoloV3 80 3 (1 / 10) ''yolov3-tiny.cfg'' ''yolov3-tiny.weights''),
      Print (CantPrepareNetwork ''no such file'')] \<and>
   construction (stub sample_folder no_fault []) (flags_of ''bogus'') = None \<and>
   take 4 (main (stub sample_folder no_fault []) (flags_of ''bogus'')) =
     [Call CallNewGraph, Call (CallNewTensor 3 416 416),
      Call (CallNewYoloV3 80 3 (1 / 10) ''yolov3-tiny.cfg'' ''yolov3-tiny.weights''),
      Call CallPrint]"
proof -
  let ?bad = "stub sample_folder (fault_in ''NewYoloV3'' ''no such file'') []"
  let ?ok = "stub sample_folder no_fault []"
  have b: "construction ?bad (flags_of ''training'') = Some ''no such file''"
    by (simp add: construction_def eval_stub)
  have o: "construction ?ok (flags_of ''bogus'') = None"
    by (simp add: construction_def eval_stub)
  have p: "prologue (flags_of m) =
             [Call CallNewGraph, Call (CallNewTensor 3 416 416),
              Call (CallNewYoloV3 80 3 (1 / 10) ''yolov3-tiny.cfg'' ''yolov3-tiny.weights'')]" for m
    by (simp add: prologue_def flags_of_def length_cocoClasses channels_def imgWidth_def
          imgHeight_def boxes_def leakyCoef_def)
  from main_builds_network_first [of ?bad "flags_of ''training''"]
       main_builds_network_first [of ?ok "flags_of ''bogus''"] b o
  show ?thesis by (simp add: p)
qed

text \<open>
  C8, as amended. When the construction of the network succeeds and the lower-cased mode
  string is neither \<open>detector\<close> nor \<open>training\<close>, the run prints the model, reports the
  mode string as not implemented and returns: no call of the detector path or of the
  training path is made.
\<close>

theorem main_unknown_mode:
  assumes "construction L F = None"
      and "ToLower L (modeStr F) \<noteq> ''detector''"
      and "ToLower L (modeStr F) \<noteq> ''training''"
  shows "main L F = prologue F @ [Call CallPrint, Print (ModeNotImplemented (modeStr F))]"
  using assms by (simp add: main_cases)

theorem main_unknown_mode_witness:
  "construction (stub sample_folder no_fault []) (flags_of ''Bogus'') = None \<and>
   ToLower (stub sample_folder no_fault []) ''Bogus'' = ''bogus'' \<and>
   main (stub sample_folder no_fault []) (flags_of ''Bogus'') =
     [Call CallNewGraph, Call (CallNewTensor 3 416 416),
      Call (CallNewYoloV3 80 3 (1 / 10) ''yolov3-tiny.cfg'' ''yolov3-tiny.weights''),
      Call CallPrint, Print (ModeNotImplemented ''Bogus'')]"
proof -
  let ?ok = "stub sample_folder no_fault []"
  have o: "construction ?ok (flags_of ''Bogus'') = None"
    by (simp add: construction_def eval_stub)
  have l: "ToLower ?ok ''Bogus'' = ''bogus''"
    by (simp add: eval_stub)
  have d: "ToLower ?ok (modeStr (flags_of ''Bogus'')) \<noteq> ''detector''"
    by (simp add: eval_stub)
  have t: "ToLower ?ok (modeStr (flags_of ''Bogus'')) \<noteq> ''training''"
    by (simp add: eval_stub)
  have p: "prologue (flags_of m) =
             [Call CallNewGraph, Call (CallNewTensor 3 416 416),
              Call (CallNewYoloV3 80 3 (1 / 10) ''yolov3-tiny.cfg'' ''yolov3-tiny.weights'')]" for m
    by (simp add: prologue_def flags_of_def length_cocoClasses channels_def imgWidth_def
          imgHeight_def boxes_def leakyCoef_def)
  from main_unknown_mode [OF o d t] o l show ?thesis
    by (simp add: p) (simp add: flags_of_def)
qed

text \<open>
  The claim as the specification states it fails when the network cannot be built: the
  run with the unknown mode \<open>bogus\<close> reports the construction failure and returns, and
  the mode is never reported.
\<close>

theorem main_unknown_mode_counterexample:
  "ToLower (stub sample_folder (fault_in ''NewYoloV3'' ''no such file'') []) ''bogus'' = ''bogus'' \<and>
   main (stub sample_folder (fault_in ''NewYoloV3'' ''no such file'') []) (flags_of ''bogus'') =
     [Call CallNewGraph, Call (CallNewTensor 3 416 416),
      Call (CallNewYoloV3 80 3 (1 / 10) ''yolov3-tiny.cfg'' ''yolov3-tiny.weights''),
      Print (CantPrepareNetwork ''no such file'')] \<and>
   Print (ModeNotImplemented ''bogus'')
     \<notin> set (main (stub sample_folder (fault_in ''NewYoloV3'' ''no such file'') []) (flags_of ''bogus''))"
proof -
  let ?bad = "stub sample_folder (fault_in ''NewYoloV3'' ''no such file'') []"
  have l: "ToLower ?bad ''bogus'' = ''bogus''"
    by (simp add: eval_stub)
  have b: "construction ?bad (flags_of ''bogus'') = Some ''no such file''"
    by (simp add: construction_def eval_stub)
  have p: "prologue (flags_of m) =
             [Call CallNewGraph, Call (CallNewTensor 3 416 416),
              Call (CallNewYoloV3 80 3 (1 / 10) ''yolov3-tiny.cfg'' ''yolov3-tiny.weights'')]" for m
    by (simp add: prologue_def flags_of_def length_cocoClasses channels_def imgWidth_def
          imgHeight_def boxes_def leakyCoef_def)
  have m: "main ?bad (flags_of ''bogus'') =
     [Call CallNewGraph, Call (CallNewTensor 3 416 416),
      Call (CallNewYoloV3 80 3 (1 / 10) ''yolov3-tiny.cfg'' ''yolov3-tiny.weights''),
      Print (CantPrepareNetwork ''no such file'')]"
    by (simp add: main_cases b p)
  from l m show ?thesis by simp
qed

subsection \<open>Reading a log\<close>

lemma step_rates_append: "step_rates (h @ k) = step_rates h @ step_rates k"
  by (induction h rule: step_rates.induct) simp_all

lemma calls_append: "calls (h @ k) = calls h @ calls k"
  by (induction h rule: calls.induct) simp_all

lemma lines_append: "lines (h @ k) = lines h @ lines k"
  by (induction h rule: lines.induct) simp_all

lemma images_append: "images (h @ k) = images h @ images k"
  by (induction h rule: images.induct) simp_all

lemma detections_append: "detections (h @ k) = detections h @ detections k"
  by (induction h rule: detections.induct) simp_all

lemma entry_rate_step:
  "(if iter = 150 then 1 / 10000000 else if iter = 15 then 1 / 1000000 else entry_rate iter)
     = schedule iter"
  by (simp add: entry_rate_def schedule_def)

lemma entry_rate_Suc:
  "entry_rate (Suc iter) = schedule iter"
  by (simp add: entry_rate_def schedule_def)

lemma iteration_rates:
  assumes "learnRate solver = entry_rate iter"
      and "iteration L dir labeledData i iter solver h = (fl, solver', h')"
  shows "(fl = Next \<longrightarrow> step_rates h' = step_rates h @ [schedule iter] \<and>
                        learnRate solver' = entry_rate (Suc iter)) \<and>
         (fl = Returned \<longrightarrow> step_rates h' = step_rates h)"
  using assms
  by (auto simp: iteration_def Let_def step_rates_append entry_rate_Suc
           split: sum.splits option.splits if_splits)
     (simp_all add: entry_rate_def schedule_def)

subsection \<open>The learning rates of the steps\<close>

lemma training_loop_rates:
  "learnRate solver = entry_rate iter \<Longrightarrow>
   \<exists>n \<le> length keys.
     step_rates (snd (training_loop L dir labeledData keys iter solver h)) =
       step_rates h @ map schedule [iter..<iter + n] \<and>
     (fst (training_loop L dir labeledData keys iter solver h) = Next \<longrightarrow> n = length keys)"
proof (induction keys arbitrary: iter solver h)
  case Nil
  show ?case by simp
next
  case (Cons i keys)
  obtain fl solver' h' where it: "iteration L dir labeledData i iter solver h = (fl, solver', h')"
    by (cases "iteration L dir labeledData i iter solver h") auto
  note r = iteration_rates [OF Cons.prems it]
  show ?case
  proof (cases fl)
    case Returned
    with it r have "step_rates (snd (training_loop L dir labeledData (i # keys) iter solver h)) =
                      step_rates h @ map schedule [iter..<iter + 0]"
      and "fst (training_loop L dir labeledData (i # keys) iter solver h) = Returned"
      by simp_all
    then show ?thesis by (intro exI [of _ 0]) simp
  next
    case Next
    with r have s: "learnRate solver' = entry_rate (Suc iter)"
      and h': "step_rates h' = step_rates h @ [schedule iter]" by simp_all
    from Cons.IH [OF s, of h'] obtain n where n: "n \<le> length keys"
      and e: "step_rates (snd (training_loop L dir labeledData keys (Suc iter) solver' h')) =
                step_rates h' @ map schedule [Suc iter..<Suc iter + n]"
      and f: "fst (training_loop L dir labeledData keys (Suc iter) solver' h') = Next \<longrightarrow>
                n = length keys"
      by blast
    have u: "iter # [Suc iter..<Suc iter + n] = [iter..<iter + Suc n]"
      by (simp add: upt_rec)
    from it Next have l: "training_loop L dir labeledData (i # keys) iter solver h =
                            training_loop L dir labeledData keys (Suc iter) solver' h'"
      by simp
    have "step_rates (snd (training_loop L dir labeledData (i # keys) iter solver h)) =
            step_rates h @ map schedule (iter # [Suc iter..<Suc iter + n])"
      unfolding l e h' by simp
    then have "step_rates (snd (training_loop L dir labeledData (i # keys) iter solver h)) =
            step_rates h @ map schedule [iter..<iter + Suc n]"
      unfolding u .
    moreover have "fst (training_loop L dir labeledData (i # keys) iter solver h) = Next \<longrightarrow>
                     Suc n = length (i # keys)"
      unfolding l using f by simp
    moreover have "Suc n \<le> length (i # keys)" using n by simp
    ultimately show ?thesis by blast
  qed
qed

lemma training_rates:
  "\<exists>n. step_rates (training L F h) = step_rates h @ map schedule [0..<n] \<and>
       (\<forall>labeledData. parseFolder L (trainingFolder F) = Inr labeledData \<longrightarrow>
          n \<le> length (rangeOrder L labeledData))"
proof (cases "parseFolder L (trainingFolder F)")
  case (Inl e)
  then have "step_rates (training L F h) = step_rates h @ map schedule [0..<0]"
    by (simp add: training_def step_rates_append)
  with Inl show ?thesis by (intro exI [of _ 0]) simp
next
  case (Inr labeledData)
  let ?h5 = "h @ [Call CallActivateTrainingMode, Call CallConcat, Call CallSum, Call CallGrad,
                  Call CallCompile, Call CallNewTapeMachine]"
  have "learnRate (RMSPropSolver (1 / 100000)) = entry_rate 0"
    by (simp add: entry_rate_def)
  from training_loop_rates [OF this, of "rangeOrder L labeledData" L "trainingFolder F" labeledData ?h5]
  obtain n where n: "n \<le> length (rangeOrder L labeledData)" and
    "step_rates (snd (training_loop L (trainingFolder F) labeledData (rangeOrder L labeledData) 0
                     (RMSPropSolver (1 / 100000)) ?h5)) = step_rates ?h5 @ map schedule [0..<0 + n]"
    by blast
  then have l: "step_rates (snd (training_loop L (trainingFolder F) labeledData (rangeOrder L labeledData) 0
                     (RMSPropSolver (1 / 100000)) ?h5)) = step_rates h @ map schedule [0..<n]"
    by (simp add: step_rates_append)
  show ?thesis
  proof (cases "\<exists>e. ActivateTrainingMode L h = Some e \<or>
                    Concat L (h @ [Call CallActivateTrainingMode]) = Some e \<or>
                    Sum_costs L (h @ [Call CallActivateTrainingMode, Call CallConcat]) = Some e \<or>
                    Grad L (h @ [Call CallActivateTrainingMode, Call CallConcat, Call CallSum]) = Some e \<or>
                    Compile L (h @ [Call CallActivateTrainingMode, Call CallConcat, Call CallSum,
                                    Call CallGrad]) = Some e")
    case True
    with Inr have "step_rates (training L F h) = step_rates h @ map schedule [0..<0]"
      by (auto simp: training_def Let_def step_rates_append split: option.splits)
    with Inr show ?thesis by (intro exI [of _ 0]) simp
  next
    case False
    with Inr have "training L F h =
        snd (training_loop L (trainingFolder F) labeledData (rangeOrder L labeledData) 0
               (RMSPropSolver (1 / 100000)) ?h5) @ [Call CallClose]"
      by (auto simp: training_def Let_def split: option.splits)
    with l have "step_rates (training L F h) = step_rates h @ map schedule [0..<n]"
      by (simp add: step_rates_append)
    with Inr n show ?thesis by (intro exI [of _ n]) simp
  qed
qed

lemma step_rates_detection_lines: "step_rates (map (\<lambda>d. Print (DetectionLine d)) dets) = []"
  by (induction dets) simp_all

lemma detector_rates: "step_rates (detector L F h) = step_rates h"
  by (simp add: detector_def Let_def step_rates_append step_rates_detection_lines
           split: sum.splits option.splits)

subsection \<open>A pass over the folder\<close>

lemma iteration_succeeds:
  assumes "body_succeeds L"
  shows "\<exists>solver' ev. iteration L dir labeledData i iter solver h = (Next, solver', h @ ev) \<and>
           map op_name (calls ev) = body_ops \<and> images ev = [imageOf dir i] \<and>
           ((\<forall>h r. Step L h r = None) \<longrightarrow> lines ev = [TrainingIterationDone iter, CurrentCosts])"
proof -
  from assms obtain imgf32 where
    g: "GetFloat32Image L h (imageOf dir i) imgHeight imgWidth = Inr imgf32"
    unfolding body_succeeds_def by blast
  from assms have s: "\<And>k t. SetTarget L k t = None" and l: "\<And>k m. Let_input L k m = None"
    and r: "\<And>k. RunAll L k = None"
    unfolding body_succeeds_def by simp_all
  show ?thesis
    by (cases "Step L (after_run dir labeledData i imgf32 iter h) (learnRate (stepping iter solver))")
       (auto simp: iteration_def g s l r Let_def body_ops_def after_run_def after_let_def
          after_target_def after_image_def stepping_def)
qed

lemma training_loop_succeeds:
  assumes "body_succeeds L"
  shows "\<exists>ev. training_loop L dir labeledData keys iter solver h = (Next, h @ ev) \<and>
           map op_name (calls ev) = concat (replicate (length keys) body_ops) \<and>
           images ev = map (imageOf dir) keys \<and>
           ((\<forall>h r. Step L h r = None) \<longrightarrow>
              lines ev = concat (map (\<lambda>n. [TrainingIterationDone n, CurrentCosts])
                                  [iter..<iter + length keys]))"
proof (induction keys arbitrary: iter solver h)
  case Nil
  show ?case by simp
next
  case (Cons i keys)
  from iteration_succeeds [OF assms, of dir labeledData i iter solver h]
  obtain solver' ev where it: "iteration L dir labeledData i iter solver h = (Next, solver', h @ ev)"
    and o: "map op_name (calls ev) = body_ops" and im: "images ev = [imageOf dir i]"
    and li: "(\<forall>h r. Step L h r = None) \<longrightarrow> lines ev = [TrainingIterationDone iter, CurrentCosts]"
    by blast
  from Cons [of "Suc iter" solver' "h @ ev"] obtain ev' where
    lo: "training_loop L dir labeledData keys (Suc iter) solver' (h @ ev) = (Next, (h @ ev) @ ev')"
    and o': "map op_name (calls ev') = concat (replicate (length keys) body_ops)"
    and im': "images ev' = map (imageOf dir) keys"
    and li': "(\<forall>h r. Step L h r = None) \<longrightarrow>
                lines ev' = concat (map (\<lambda>n. [TrainingIterationDone n, CurrentCosts])
                                     [Suc iter..<Suc iter + length keys])"
    by blast
  have u: "[iter..<iter + length (i # keys)] = iter # [Suc iter..<Suc iter + length keys]"
    by (simp add: upt_rec)
  have "training_loop L dir labeledData (i # keys) iter solver h = (Next, h @ (ev @ ev'))"
    using it lo by simp
  moreover have "map op_name (calls (ev @ ev')) = concat (replicate (length (i # keys)) body_ops)"
    using o o' by (simp add: calls_append)
  moreover have "images (ev @ ev') = map (imageOf dir) (i # keys)"
    using im im' by (simp add: images_append)
  moreover have "(\<forall>h r. Step L h r = None) \<longrightarrow>
       lines (ev @ ev') = concat (map (\<lambda>n. [TrainingIterationDone n, CurrentCosts])
                                   [iter..<iter + length (i # keys)])"
    using li li' unfolding u by (simp add: lines_append)
  ultimately show ?case by blast
qed

lemma training_prepared:
  assumes "parseFolder L (trainingFolder F) = Inr labeledData" and "setup_succeeds L"
  shows "training L F h =
           snd (training_loop L (trainingFolder F) labeledData (rangeOrder L labeledData) 0
                  (RMSPropSolver (1 / 100000))
                  (h @ [Call CallActivateTrainingMode, Call CallConcat, Call CallSum, Call CallGrad,
                        Call CallCompile, Call CallNewTapeMachine]))
             @ [Call CallClose]"
  using assms by (simp add: training_def setup_succeeds_def Let_def)

lemma main_training:
  assumes "construction L F = None" and "ToLower L (modeStr F) = ''training''"
      and "parseFolder L (trainingFolder F) = Inr labeledData" and "setup_succeeds L"
  shows "main L F =
           snd (training_loop L (trainingFolder F) labeledData (rangeOrder L labeledData) 0
                  (RMSPropSolver (1 / 100000)) (before_loop F))
             @ [Call CallClose]"
  using assms(1,2) training_prepared [OF assms(3,4), of "prologue F @ [Call CallPrint]"]
  by (simp add: main_cases before_loop_def)

lemma step_rates_before_loop: "step_rates (before_loop F) = []"
  by (simp add: before_loop_def prologue_def)

lemma main_rates: "\<exists>n. step_rates (main L F) = map schedule [0..<n]"
proof -
  have p: "step_rates (prologue F @ [Call CallPrint]) = []"
    by (simp add: prologue_def)
  from training_rates [of L F "prologue F @ [Call CallPrint]"] obtain n where
    t: "step_rates (training L F (prologue F @ [Call CallPrint])) = map schedule [0..<n]"
    unfolding p by auto
  have d: "step_rates (detector L F (prologue F @ [Call CallPrint])) = map schedule [0..<0]"
    by (simp add: detector_rates p)
  have u: "step_rates (prologue F @ [Call CallPrint, Print (ModeNotImplemented (modeStr F))])
             = map schedule [0..<0]"
    by (simp add: prologue_def)
  have f: "step_rates (prologue F @ [Print (CantPrepareNetwork e)]) = map schedule [0..<0]" for e
    by (simp add: prologue_def)
  show ?thesis
  proof (cases "construction L F")
    case (Some e)
    then have "main L F = prologue F @ [Print (CantPrepareNetwork e)]"
      by (simp add: main_cases)
    with f show ?thesis by metis
  next
    case None
    consider (det) "ToLower L (modeStr F) = ''detector''"
      | (tra) "ToLower L (modeStr F) \<noteq> ''detector''" "ToLower L (modeStr F) = ''training''"
      | (unk) "ToLower L (modeStr F) \<noteq> ''detector''" "ToLower L (modeStr F) \<noteq> ''training''"
      by blast
    then show ?thesis
    proof cases
      case det
      with None have "main L F = detector L F (prologue F @ [Call CallPrint])"
        by (simp add: main_cases)
      with d show ?thesis by metis
    next
      case tra
      with None have "main L F = training L F (prologue F @ [Call CallPrint])"
        by (simp add: main_cases)
      with t show ?thesis by metis
    next
      case unk
      with None have "main L F = prologue F @ [Call CallPrint, Print (ModeNotImplemented (modeStr F))]"
        by (simp add: main_cases)
      with u show ?thesis by metis
    qed
  qed
qed

text \<open>
  C4. In every run the optimizer steps use, in order, the rates of the schedule: the
  step made after \<open>n\<close> completed iterations uses \<open>schedule n\<close>, which is \<open>1e-5\<close> for
  \<open>n < 15\<close>, \<open>1e-6\<close> from \<open>n = 15\<close> on and \<open>1e-7\<close> from \<open>n = 150\<close> on. The two
  breakpoints are constants of the loop body; no flag and no size of the folder enters.
  When the preparation and the four other calls of the body succeed, there is one step
  per key of the map, so a folder of any size runs through the schedule from its start.
\<close>

theorem learning_rate_schedule:
  "step_rates (main L F) = map schedule [0..<length (step_rates (main L F))] \<and>
   (construction L F = None \<and> ToLower L (modeStr F) = ''training'' \<and>
    parseFolder L (trainingFolder F) = Inr labeledData \<and> setup_succeeds L \<and> body_succeeds L \<longrightarrow>
      step_rates (main L F) = map schedule [0..<length (rangeOrder L labeledData)])"
proof -
  from main_rates [of L F] obtain n where n: "step_rates (main L F) = map schedule [0..<n]" by blast
  then have "length (step_rates (main L F)) = n" by simp
  with n have 1: "step_rates (main L F) = map schedule [0..<length (step_rates (main L F))]" by simp
  have 2: "step_rates (main L F) = map schedule [0..<length (rangeOrder L labeledData)]"
    if c: "construction L F = None" and m: "ToLower L (modeStr F) = ''training''"
      and p: "parseFolder L (trainingFolder F) = Inr labeledData" and s: "setup_succeeds L"
      and b: "body_succeeds L"
  proof -
    let ?loop = "training_loop L (trainingFolder F) labeledData (rangeOrder L labeledData) 0
                   (RMSPropSolver (1 / 100000)) (before_loop F)"
    have "learnRate (RMSPropSolver (1 / 100000)) = entry_rate 0"
      by (simp add: entry_rate_def)
    note r = training_loop_rates [OF this, of "rangeOrder L labeledData" L "trainingFolder F"
                 labeledData "before_loop F"]
    from training_loop_succeeds [OF b, of "trainingFolder F" labeledData
           "rangeOrder L labeledData" 0 "RMSPropSolver (1 / 100000)" "before_loop F"]
    have nx: "fst ?loop = Next" by auto
    from r nx have "step_rates (snd ?loop) = map schedule [0..<length (rangeOrder L labeledData)]"
      by (auto simp: step_rates_before_loop)
    then show ?thesis
      by (simp add: main_training [OF c m p s] step_rates_append)
  qed
  from 1 2 show ?thesis by blast
qed

lemmas eval_run =
  parseFolder_def setup_succeeds_def body_succeeds_def after_image_def after_target_def
  after_let_def after_run_def stepping_def schedule_def body_ops_def

text \<open>
  A folder of two samples whose optimizer steps both fail, and the schedule at the two
  breakpoints.
\<close>

theorem learning_rate_schedule_witness:
  "construction (stub pair_folder (fault_in ''Step'' ''not a number'') []) (flags_of ''training'') = None \<and>
   parseFolder (stub pair_folder (fault_in ''Step'' ''not a number'') []) ''d'' = Inr [(''a'', [1]), (''b'', [2])] \<and>
   setup_succeeds (stub pair_folder (fault_in ''Step'' ''not a number'') []) \<and>
   body_succeeds (stub pair_folder (fault_in ''Step'' ''not a number'') []) \<and>
   step_rates (main (stub pair_folder (fault_in ''Step'' ''not a number'') []) (flags_of ''training''))
     = [1 / 100000, 1 / 100000] \<and>
   map schedule [14, 15, 149, 150] = [1 / 100000, 1 / 1000000, 1 / 1000000, 1 / 10000000]"
proof -
  let ?L = "stub pair_folder (fault_in ''Step'' ''not a number'') []"
  let ?F = "flags_of ''training''"
  have c: "construction ?L ?F = None"
    by (simp add: construction_def eval_stub)
  have m: "ToLower ?L (modeStr ?F) = ''training''"
    by (simp add: eval_stub)
  have p: "parseFolder ?L (trainingFolder ?F) = Inr [(''a'', [1]), (''b'', [2])]"
    by (simp add: pair_folder_def parseFolder_def eval_stub eval_folder eval_strings)
  have s: "setup_succeeds ?L"
    by (simp add: setup_succeeds_def eval_stub)
  have b: "body_succeeds ?L"
    by (simp add: body_succeeds_def eval_stub)
  have r: "rangeOrder ?L [(''a'', [1]), (''b'', [2])] = [''a'', ''b'']"
    by (simp add: eval_stub)
  have u: "[0..<2] = [0, Suc 0]"
    by (simp add: upt_rec)
  from learning_rate_schedule [of ?L ?F "[(''a'', [1]), (''b'', [2])]"] c m p s b
  have "step_rates (main ?L ?F) = map schedule [0..<length (rangeOrder ?L [(''a'', [1]), (''b'', [2])])]"
    by blast
  then have "step_rates (main ?L ?F) = [1 / 100000, 1 / 100000]"
    by (simp add: r u schedule_def)
  moreover have "map schedule [14, 15, 149, 150] = [1 / 100000, 1 / 1000000, 1 / 1000000, 1 / 10000000]"
    by (simp add: schedule_def)
  moreover from p have "parseFolder ?L ''d'' = Inr [(''a'', [1]), (''b'', [2])]"
    by (simp add: flags_of_def)
  ultimately show ?thesis using c s b by blast
qed



subsection \<open>Failures in the training loop\<close>

text \<open>
  C5. One pass of the training loop, from any log, iteration number and solver. A failure
  of the image load, of the target set, of the input bind or of the graph execution is
  printed and ends the loop with a return: the keys that remain are not touched. A failure
  of the optimizer step is printed, the tape machine is reset, and the loop goes on with
  the remaining keys. In \<open>main\<close>, what follows the loop, however it ended, is only the
  close of the tape machine.
\<close>

theorem training_loop_failures:
  "(GetFloat32Image L h (imageOf dir i) imgHeight imgWidth = Inl e \<longrightarrow>
      training_loop L dir labeledData (i # keys) iter solver h =
        (Returned, after_image dir i h @ [Print (CantReadImage e)])) \<and>
   (GetFloat32Image L h (imageOf dir i) imgHeight imgWidth = Inr img \<and>
    SetTarget L (after_image dir i h) (index_map labeledData i) = Some e \<longrightarrow>
      training_loop L dir labeledData (i # keys) iter solver h =
        (Returned, after_target dir labeledData i h @ [Print (CantSetTarget e)])) \<and>
   (GetFloat32Image L h (imageOf dir i) imgHeight imgWidth = Inr img \<and>
    SetTarget L (after_image dir i h) (index_map labeledData i) = None \<and>
    Let_input L (after_target dir labeledData i h) img = Some e \<longrightarrow>
      training_loop L dir labeledData (i # keys) iter solver h =
        (Returned, after_let dir labeledData i img h @ [Print (CantLetInput e)])) \<and>
   (GetFloat32Image L h (imageOf dir i) imgHeight imgWidth = Inr img \<and>
    SetTarget L (after_image dir i h) (index_map labeledData i) = None \<and>
    Let_input L (after_target dir labeledData i h) img = None \<and>
    RunAll L (after_let dir labeledData i img h) = Some e \<longrightarrow>
      training_loop L dir labeledData (i # keys) iter solver h =
        (Returned, after_let dir labeledData i img h @ [Call CallRunAll, Print (CantRunTapeMachine e)])) \<and>
   (GetFloat32Image L h (imageOf dir i) imgHeight imgWidth = Inr img \<and>
    SetTarget L (after_image dir i h) (index_map labeledData i) = None \<and>
    Let_input L (after_target dir labeledData i h) img = None \<and>
    RunAll L (after_let dir labeledData i img h) = None \<and>
    Step L (after_run dir labeledData i img iter h) (learnRate (stepping iter solver)) = Some e \<longrightarrow>
      training_loop L dir labeledData (i # keys) iter solver h =
        training_loop L dir labeledData keys (iter + 1) (stepping iter solver)
          (after_run dir labeledData i img iter h
             @ [Call (CallStep (learnRate (stepping iter solver))), Print (CantSolverStep e),
                Call CallReset])) \<and>
   (construction L F = None \<and> ToLower L (modeStr F) = ''training'' \<and>
    parseFolder L (trainingFolder F) = Inr labeledData \<and> setup_succeeds L \<longrightarrow>
      main L F =
        snd (training_loop L (trainingFolder F) labeledData (rangeOrder L labeledData) 0
               (RMSPropSolver (1 / 100000)) (before_loop F)) @ [Call CallClose])"
proof -
  have 1: "training_loop L dir labeledData (i # keys) iter solver h =
             (Returned, after_image dir i h @ [Print (CantReadImage e)])"
    if "GetFloat32Image L h (imageOf dir i) imgHeight imgWidth = Inl e"
    using that by (simp add: iteration_def after_image_def)
  have 2: "training_loop L dir labeledData (i # keys) iter solver h =
             (Returned, after_target dir labeledData i h @ [Print (CantSetTarget e)])"
    if "GetFloat32Image L h (imageOf dir i) imgHeight imgWidth = Inr img"
      and "SetTarget L (after_image dir i h) (index_map labeledData i) = Some e"
    using that by (simp add: iteration_def after_image_def after_target_def)
  have 3: "training_loop L dir labeledData (i # keys) iter solver h =
             (Returned, after_let dir labeledData i img h @ [Print (CantLetInput e)])"
    if "GetFloat32Image L h (imageOf dir i) imgHeight imgWidth = Inr img"
      and "SetTarget L (after_image dir i h) (index_map labeledData i) = None"
      and "Let_input L (after_target dir labeledData i h) img = Some e"
    using that by (simp add: iteration_def after_image_def after_target_def after_let_def)
  have 4: "training_loop L dir labeledData (i # keys) iter solver h =
             (Returned, after_let dir labeledData i img h @ [Call CallRunAll, Print (CantRunTapeMachine e)])"
    if "GetFloat32Image L h (imageOf dir i) imgHeight imgWidth = Inr img"
      and "SetTarget L (after_image dir i h) (index_map labeledData i) = None"
      and "Let_input L (after_target dir labeledData i h) img = None"
      and "RunAll L (after_let dir labeledData i img h) = Some e"
    using that by (simp add: iteration_def after_image_def after_target_def after_let_def)
  have 5: "training_loop L dir labeledData (i # keys) iter solver h =
        training_loop L dir labeledData keys (iter + 1) (stepping iter solver)
          (after_run dir labeledData i img iter h
             @ [Call (CallStep (learnRate (stepping iter solver))), Print (CantSolverStep e),
                Call CallReset])"
    if "GetFloat32Image L h (imageOf dir i) imgHeight imgWidth = Inr img"
      and "SetTarget L (after_image dir i h) (index_map labeledData i) = None"
      and "Let_input L (after_target dir labeledData i h) img = None"
      and "RunAll L (after_let dir labeledData i img h) = None"
      and "Step L (after_run dir labeledData i img iter h) (learnRate (stepping iter solver)) = Some e"
    using that
    by (simp add: iteration_def after_image_def after_target_def after_let_def after_run_def
          stepping_def Let_def)
  have 6: "main L F =
        snd (training_loop L (trainingFolder F) labeledData (rangeOrder L labeledData) 0
               (RMSPropSolver (1 / 100000)) (before_loop F)) @ [Call CallClose]"
    if "construction L F = None" and "ToLower L (modeStr F) = ''training''"
      and "parseFolder L (trainingFolder F) = Inr labeledData" and "setup_succeeds L"
    using that by (rule main_training)
  from 1 2 3 4 5 6 show ?thesis by blast
qed

text \<open>
  Two samples, and a library in which one kind of call fails: the first four runs stop in
  the first sample, the last one reports both steps and passes through both samples.
\<close>

theorem training_loop_failures_witness:
  "training_loop (stub pair_folder (fault_in ''GetFloat32Image'' ''no image'') []) ''d''
      [(''a'', [1]), (''b'', [2])] [''a'', ''b''] 0 (RMSPropSolver (1 / 100000)) [] =
     (Returned, [Call (CallGetFloat32Image ''d/a.jpg'' 416 416), Print (CantReadImage ''no image'')]) \<and>
   training_loop (stub pair_folder (fault_in ''SetTarget'' ''bad length'') []) ''d''
      [(''a'', [1]), (''b'', [2])] [''a'', ''b''] 0 (RMSPropSolver (1 / 100000)) [] =
     (Returned, [Call (CallGetFloat32Image ''d/a.jpg'' 416 416), Call (CallSetTarget [1]),
                 Print (CantSetTarget ''bad length'')]) \<and>
   training_loop (stub pair_folder (fault_in ''Let'' ''bad shape'') []) ''d''
      [(''a'', [1]), (''b'', [2])] [''a'', ''b''] 0 (RMSPropSolver (1 / 100000)) [] =
     (Returned, [Call (CallGetFloat32Image ''d/a.jpg'' 416 416), Call (CallSetTarget [1]),
                 Call (CallLet ''d/a.jpg''), Print (CantLetInput ''bad shape'')]) \<and>
   training_loop (stub pair_folder (fault_in ''RunAll'' ''bad graph'') []) ''d''
      [(''a'', [1]), (''b'', [2])] [''a'', ''b''] 0 (RMSPropSolver (1 / 100000)) [] =
     (Returned, [Call (CallGetFloat32Image ''d/a.jpg'' 416 416), Call (CallSetTarget [1]),
                 Call (CallLet ''d/a.jpg''), Call CallRunAll, Print (CantRunTapeMachine ''bad graph'')]) \<and>
   training_loop (stub pair_folder (fault_in ''Step'' ''not a number'') []) ''d''
      [(''a'', [1]), (''b'', [2])] [''a'', ''b''] 0 (RMSPropSolver (1 / 100000)) [] =
     (Next, [Call (CallGetFloat32Image ''d/a.jpg'' 416 416), Call (CallSetTarget [1]),
             Call (CallLet ''d/a.jpg''), Call CallRunAll, Print (TrainingIterationDone 0),
             Print CurrentCosts, Call (CallStep (1 / 100000)), Print (CantSolverStep ''not a number''),
             Call CallReset,
             Call (CallGetFloat32Image ''d/b.jpg'' 416 416), Call (CallSetTarget [2]),
             Call (CallLet ''d/b.jpg''), Call CallRunAll, Print (TrainingIterationDone 1),
             Print CurrentCosts, Call (CallStep (1 / 100000)), Print (CantSolverStep ''not a number''),
             Call CallReset])"
proof -
  let ?data = "[(''a'', [1]), (''b'', [2 :: rat])]"
  let ?s = "RMSPropSolver (1 / 100000)"
  let ?h = "[] :: (rat, string, string) event list"
  note ev = eval_stub eval_run index_map_def imageOf_def imgWidth_def imgHeight_def slash_def
  have 1: "training_loop (stub pair_folder (fault_in ''GetFloat32Image'' ''no image'') []) ''d''
      ?data [''a'', ''b''] 0 ?s ?h =
     (Returned, [Call (CallGetFloat32Image ''d/a.jpg'' 416 416), Print (CantReadImage ''no image'')])"
    using training_loop_failures [where L = "stub pair_folder (fault_in ''GetFloat32Image'' ''no image'') []"
        and h = ?h and dir = "''d''" and i = "''a''" and e = "''no image''" and labeledData = ?data
        and keys = "[''b'']" and iter = 0 and solver = ?s]
    by (simp add: ev)
  have 2: "training_loop (stub pair_folder (fault_in ''SetTarget'' ''bad length'') []) ''d''
      ?data [''a'', ''b''] 0 ?s ?h =
     (Returned, [Call (CallGetFloat32Image ''d/a.jpg'' 416 416), Call (CallSetTarget [1]),
                 Print (CantSetTarget ''bad length'')])"
    using training_loop_failures [where L = "stub pair_folder (fault_in ''SetTarget'' ''bad length'') []"
        and h = ?h and dir = "''d''" and i = "''a''" and e = "''bad length''" and labeledData = ?data
        and keys = "[''b'']" and iter = 0 and solver = ?s and img = "''d/a.jpg''"]
    by (simp add: ev)
  have 3: "training_loop (stub pair_folder (fault_in ''Let'' ''bad shape'') []) ''d''
      ?data [''a'', ''b''] 0 ?s ?h =
     (Returned, [Call (CallGetFloat32Image ''d/a.jpg'' 416 416), Call (CallSetTarget [1]),
                 Call (CallLet ''d/a.jpg''), Print (CantLetInput ''bad shape'')])"
    using training_loop_failures [where L = "stub pair_folder (fault_in ''Let'' ''bad shape'') []"
        and h = ?h and dir = "''d''" and i = "''a''" and e = "''bad shape''" and labeledData = ?data
        and keys = "[''b'']" and iter = 0 and solver = ?s and img = "''d/a.jpg''"]
    by (simp add: ev)
  have 4: "training_loop (stub pair_folder (fault_in ''RunAll'' ''bad graph'') []) ''d''
      ?data [''a'', ''b''] 0 ?s ?h =
     (Returned, [Call (CallGetFloat32Image ''d/a.jpg'' 416 416), Call (CallSetTarget [1]),
                 Call (CallLet ''d/a.jpg''), Call CallRunAll, Print (CantRunTapeMachine ''bad graph'')])"
    using training_loop_failures [where L = "stub pair_folder (fault_in ''RunAll'' ''bad graph'') []"
        and h = ?h and dir = "''d''" and i = "''a''" and e = "''bad graph''" and labeledData = ?data
        and keys = "[''b'']" and iter = 0 and solver = ?s and img = "''d/a.jpg''"]
    by (simp add: ev)
  let ?L = "stub pair_folder (fault_in ''Step'' ''not a number'') []"
  let ?a = "[Call (CallGetFloat32Image ''d/a.jpg'' 416 416), Call (CallSetTarget [1]),
             Call (CallLet ''d/a.jpg''), Call CallRunAll, Print (TrainingIterationDone 0),
             Print CurrentCosts, Call (CallStep (1 / 100000)), Print (CantSolverStep ''not a number''),
             Call CallReset] :: (rat, string, string) event list"
  have a: "training_loop ?L ''d'' ?data [''a'', ''b''] 0 ?s ?h =
           training_loop ?L ''d'' ?data [''b''] 1 ?s ?a"
    using training_loop_failures [where L = ?L
        and h = ?h and dir = "''d''" and i = "''a''" and e = "''not a number''" and labeledData = ?data
        and keys = "[''b'']" and iter = 0 and solver = ?s and img = "''d/a.jpg''"]
    by (simp add: ev)
  have b: "training_loop ?L ''d'' ?data [''b''] 1 ?s ?a =
     (Next, ?a @ [Call (CallGetFloat32Image ''d/b.jpg'' 416 416), Call (CallSetTarget [2]),
             Call (CallLet ''d/b.jpg''), Call CallRunAll, Print (TrainingIterationDone 1),
             Print CurrentCosts, Call (CallStep (1 / 100000)), Print (CantSolverStep ''not a number''),
             Call CallReset])"
    using training_loop_failures [where L = ?L
        and h = ?a and dir = "''d''" and i = "''b''" and e = "''not a number''" and labeledData = ?data
        and keys = "[]" and iter = 1 and solver = ?s and img = "''d/b.jpg''"]
    by (simp add: ev)
  from 1 2 3 4 a b show ?thesis by simp
qed

subsection \<open>The detections printed\<close>

lemma intersection_commute: "intersection a b = intersection b a"
  by (simp add: intersection_def max.commute min.commute)

lemma iou_commute: "iou a b = iou b a"
  by (simp add: iou_def intersection_commute [of a b] add.commute)

lemma separated_snoc:
  "separated it (kept @ [d]) \<longleftrightarrow>
     separated it kept \<and>
     list_all (\<lambda>k. className k = className d \<longrightarrow> \<not> it < iou (rect k) (rect d)) kept"
  by (induction kept) auto

lemma suppress_separated:
  "separated it kept \<Longrightarrow> separated it (suppress it kept ds)"
proof (induction ds arbitrary: kept)
  case Nil
  then show ?case by simp
next
  case (Cons d ds)
  show ?case
  proof (cases "list_ex (\<lambda>k. className k = className d \<and> it < iou (rect k) (rect d)) kept")
    case True
    with Cons show ?thesis by simp
  next
    case False
    then have "list_all (\<lambda>k. className k = className d \<longrightarrow> \<not> it < iou (rect k) (rect d)) kept"
      by (auto simp: list_ex_iff list_all_iff)
    with Cons.prems have "separated it (kept @ [d])"
      by (simp add: separated_snoc)
    from Cons.IH [OF this] False show ?thesis by simp
  qed
qed

lemma suppress_subset: "set (suppress it kept ds) \<subseteq> set kept \<union> set ds"
proof (induction ds arbitrary: kept)
  case Nil
  show ?case by simp
next
  case (Cons d ds)
  from Cons [of kept] Cons [of "kept @ [d]"] show ?case by auto
qed

lemma ProcessOutput_spec_separated: "separated it (ProcessOutput_spec candidates st it)"
  unfolding ProcessOutput_spec_def by (rule suppress_separated) simp

lemma ProcessOutput_spec_confident:
  "d \<in> set (ProcessOutput_spec candidates st it) \<Longrightarrow> \<not> score d < st"
  using suppress_subset [of it "[]" "sort_key (\<lambda>d. - score d) (filter (\<lambda>d. \<not> score d < st) candidates)"]
  by (auto simp: ProcessOutput_spec_def)

lemma separated_nth:
  "separated it ds \<Longrightarrow> i < j \<Longrightarrow> j < length ds \<Longrightarrow> className (ds ! i) = className (ds ! j) \<Longrightarrow>
   \<not> it < iou (rect (ds ! i)) (rect (ds ! j))"
proof (induction ds arbitrary: i j)
  case Nil
  then show ?case by simp
next
  case (Cons d ds)
  show ?case
  proof (cases i)
    case 0
    with Cons.prems obtain j' where j: "j = Suc j'" and "j' < length ds"
      by (cases j) auto
    with Cons.prems 0 show ?thesis by (auto simp: list_all_length)
  next
    case (Suc i')
    with Cons.prems obtain j' where j: "j = Suc j'" and "i' < j'" "j' < length ds"
      by (cases j) auto
    with Cons.prems Suc Cons.IH [of i' j'] show ?thesis by simp
  qed
qed

lemma separated_pairs:
  assumes "separated it ds" and "i < length ds" and "j < length ds" and "i \<noteq> j"
      and "className (ds ! i) = className (ds ! j)"
  shows "\<not> it < iou (rect (ds ! i)) (rect (ds ! j))"
proof (cases "i < j")
  case True
  with assms show ?thesis by (simp add: separated_nth)
next
  case False
  with assms have "j < i" by simp
  from separated_nth [OF assms(1) this assms(2)] assms(5)
  show ?thesis by (simp add: iou_commute [of "rect (ds ! i)"])
qed

lemma detections_lines: "detections (map (\<lambda>d. Print (DetectionLine d)) dets) = dets"
  by (induction dets) simp_all

lemma detections_iteration:
  "detections (snd (snd (iteration L dir labeledData i iter solver h))) = detections h"
  by (simp add: iteration_def Let_def detections_append split: sum.splits option.splits)

lemma detections_training_loop:
  "detections (snd (training_loop L dir labeledData keys iter solver h)) = detections h"
proof (induction keys arbitrary: iter solver h)
  case Nil
  show ?case by simp
next
  case (Cons i keys)
  obtain fl solver' h' where it: "iteration L dir labeledData i iter solver h = (fl, solver', h')"
    by (cases "iteration L dir labeledData i iter solver h") auto
  with detections_iteration [of L dir labeledData i iter solver h]
  have "detections h' = detections h" by simp
  with it Cons [of "iter + 1" solver' h'] show ?case by (cases fl) simp_all
qed

lemma detections_training: "detections (training L F h) = detections h"
  by (simp add: training_def Let_def detections_append detections_training_loop
           split: sum.splits option.splits)

lemma detections_detector:
  "detections (detector L F h) = detections h \<or>
   (\<exists>k dets. ProcessOutput L k cocoClasses scoreThreshold iouThreshold = Inr dets \<and>
             detections (detector L F h) = detections h @ dets)"
  by (auto simp: detector_def Let_def detections_append detections_lines
           split: sum.splits option.splits)

lemma detections_prologue: "detections (prologue F @ ev) = detections ev"
  by (simp add: prologue_def)

lemma detections_main:
  "detections (main L F) = [] \<or>
   (\<exists>k. ProcessOutput L k cocoClasses scoreThreshold iouThreshold = Inr (detections (main L F)))"
proof -
  let ?h = "prologue F @ [Call CallPrint]"
  have h: "detections ?h = []" by (simp add: prologue_def)
  from detections_detector [of L F ?h]
  have d: "detections (detector L F ?h) = [] \<or>
           (\<exists>k. ProcessOutput L k cocoClasses scoreThreshold iouThreshold = Inr (detections (detector L F ?h)))"
    unfolding h by auto
  have t: "detections (training L F ?h) = []"
    by (simp add: detections_training h)
  show ?thesis
    using d t by (auto simp: main_cases prologue_def split: option.splits)
qed

text \<open>
  C7. The detections a run prints are none at all, or exactly the list that
  \<open>ProcessOutput\<close> returned for the class list and the two thresholds of \<open>main\<close>, in
  its order: \<open>main\<close> adds, drops and changes nothing. When \<open>ProcessOutput\<close> does what the
  specification says of it, no printed detection has a score below \<open>0.8\<close>, and no two
  printed detections of one class have an IoU above \<open>0.3\<close>.
\<close>

theorem detector_output:
  "(detections (main L F) = [] \<or>
    (\<exists>k. ProcessOutput L k cocoClasses scoreThreshold iouThreshold = Inr (detections (main L F)))) \<and>
   (postprocess_as_specified L \<longrightarrow>
      (\<forall>d \<in> set (detections (main L F)). \<not> score d < 8 / 10) \<and>
      (\<forall>i j. i < length (detections (main L F)) \<and> j < length (detections (main L F)) \<and> i \<noteq> j \<and>
             className (detections (main L F) ! i) = className (detections (main L F) ! j) \<longrightarrow>
             \<not> 3 / 10 < iou (rect (detections (main L F) ! i)) (rect (detections (main L F) ! j))))"
proof -
  note m = detections_main [of L F]
  have p: "(\<forall>d \<in> set (detections (main L F)). \<not> score d < 8 / 10) \<and>
      (\<forall>i j. i < length (detections (main L F)) \<and> j < length (detections (main L F)) \<and> i \<noteq> j \<and>
             className (detections (main L F) ! i) = className (detections (main L F) ! j) \<longrightarrow>
             \<not> 3 / 10 < iou (rect (detections (main L F) ! i)) (rect (detections (main L F) ! j)))"
    if s: "postprocess_as_specified L"
  proof (cases "detections (main L F) = []")
    case True
    then show ?thesis by simp
  next
    case False
    with m obtain k where "ProcessOutput L k cocoClasses scoreThreshold iouThreshold = Inr (detections (main L F))"
      by blast
    with s obtain candidates where
      c: "detections (main L F) = ProcessOutput_spec candidates scoreThreshold iouThreshold"
      unfolding postprocess_as_specified_def by blast
    have "separated (3 / 10) (detections (main L F))"
      unfolding c using ProcessOutput_spec_separated [of iouThreshold candidates scoreThreshold]
      by (simp add: iouThreshold_def)
    moreover have "\<forall>d \<in> set (detections (main L F)). \<not> score d < 8 / 10"
      unfolding c using ProcessOutput_spec_confident [of _ candidates scoreThreshold iouThreshold]
      by (auto simp: scoreThreshold_def)
    ultimately show ?thesis
      using separated_pairs [of "3 / 10" "detections (main L F)"] by blast
  qed
  from m p show ?thesis by blast
qed

lemma dog_output:
  "ProcessOutput_spec dog_boxes (8 / 10) (3 / 10) =
     [\<lparr>className = ''dog'', score = 95 / 100, rect = \<lparr>xmin = 100, ymin = 100, xmax = 200, ymax = 200\<rparr>\<rparr>,
      \<lparr>className = ''bicycle'', score = 85 / 100, rect = \<lparr>xmin = 50, ymin = 60, xmax = 250, ymax = 300\<rparr>\<rparr>]"
  by (simp add: ProcessOutput_spec_def dog_boxes_def iou_def intersection_def area_def Let_def)

text \<open>
  Four candidate boxes: the second dog overlaps the first by \<open>9/11\<close> and is suppressed,
  the cat is below the score threshold.
\<close>

theorem detector_output_witness:
  "postprocess_as_specified (detector_lib dog_boxes) \<and>
   iou \<lparr>xmin = 100, ymin = 100, xmax = 200, ymax = 200\<rparr> \<lparr>xmin = 110, ymin = 100, xmax = 210, ymax = 200\<rparr>
     = 9 / 11 \<and>
   detections (main (detector_lib dog_boxes) (flags_of ''detector'')) =
     [\<lparr>className = ''dog'', score = 95 / 100, rect = \<lparr>xmin = 100, ymin = 100, xmax = 200, ymax = 200\<rparr>\<rparr>,
      \<lparr>className = ''bicycle'', score = 85 / 100, rect = \<lparr>xmin = 50, ymin = 60, xmax = 250, ymax = 300\<rparr>\<rparr>] \<and>
   list_all (\<lambda>d. \<not> score d < 8 / 10) (detections (main (detector_lib dog_boxes) (flags_of ''detector'')))"
proof -
  let ?L = "detector_lib dog_boxes"
  let ?F = "flags_of ''detector''"
  have s: "postprocess_as_specified ?L"
    by (auto simp: postprocess_as_specified_def detector_lib_def)
  have i: "iou \<lparr>xmin = 100, ymin = 100, xmax = 200, ymax = 200\<rparr>
               \<lparr>xmin = 110, ymin = 100, xmax = 210, ymax = 200\<rparr> = 9 / 11"
    by (simp add: iou_def intersection_def area_def Let_def)
  have c: "construction ?L ?F = None"
    by (simp add: construction_def detector_lib_def)
  have m: "ToLower ?L (modeStr ?F) = ''detector''"
    by (simp add: detector_lib_def flags_of_def lower_ascii_def)
  have "main ?L ?F = detector ?L ?F (prologue ?F @ [Call CallPrint])"
    using c m by (simp add: main_cases)
  then have e: "detections (main ?L ?F) = ProcessOutput_spec dog_boxes (8 / 10) (3 / 10)"
    by (simp add: detector_def detector_lib_def detections_append detections_lines prologue_def
          scoreThreshold_def iouThreshold_def)
  from detector_output [of ?L ?F] s
  have "\<forall>d \<in> set (detections (main ?L ?F)). \<not> score d < 8 / 10" by blast
  then have a: "list_all (\<lambda>d. \<not> score d < 8 / 10) (detections (main ?L ?F))"
    by (simp add: list_all_iff)
  from e have e': "detections (main ?L ?F) =
     [\<lparr>className = ''dog'', score = 95 / 100, rect = \<lparr>xmin = 100, ymin = 100, xmax = 200, ymax = 200\<rparr>\<rparr>,
      \<lparr>className = ''bicycle'', score = 85 / 100, rect = \<lparr>xmin = 50, ymin = 60, xmax = 250, ymax = 300\<rparr>\<rparr>]"
    unfolding dog_output .
  from s i e' a show ?thesis by blast
qed

end
